theory Spec2Isabelle
  imports Main "HOL-Library.AList"
begin

section \<open>The unit selector (unit\_selector\_prototype\_v3.py)\<close>

text \<open>
  The selector builds, under a block \<open>selector_block\<close>, one Pyomo \<open>Disjunct\<close> per candidate
  unit and one \<open>Disjunction\<close> over them, moves every candidate into its disjunct, creates the
  selector's own state blocks and ports, and adds one \<open>Arc\<close> per connection into the disjuncts.
  Everything is addressed by attribute names built with f-strings, so the model keeps the names
  as strings and the blocks as maps from names to components.

  Conventions of the library the source runs on, as the model has them:
  \<^item> \<open>getattr\<close> of a name a block does not have raises \<open>AttributeError\<close>;
  \<^item> \<open>add_component\<close> of a name a block already has raises \<open>ValueError\<close> when the name is
    one of the block's reserved attribute names, and \<open>RuntimeError\<close> otherwise;
  \<^item> \<open>setattr\<close> of a component under a name a block already has replaces the old component;
  \<^item> \<open>del_component\<close> of a name a block does not have does nothing;
  \<^item> a new \<open>Disjunct\<close> already holds its reserved attributes, the indicator variables among
    them, and nothing else;
  \<^item> a \<open>Disjunction\<close> is exclusive (\<open>xor\<close>) unless told otherwise.
  The \<open>print\<close> calls of the source are left out.
\<close>

subsection \<open>Errors and names\<close>

datatype error =
  AttributeError | IndexError | RuntimeError | ValueError
  | ConfigurationError | BurntToast | PropertyNotSupportedError | InitializationError

type_synonym name = string

text \<open>
  A method that changes the model returns the new model, or the error it raised together with
  the model as the exception leaves it: what was done before the raise stays done.
\<close>

type_synonym 'a result = "(error \<times> 'a) + 'a"

definition digit :: "nat \<Rightarrow> char" where
  "digit d = ''0123456789'' ! d"

text \<open>Python's \<open>str\<close> on a non-negative integer: its decimal digits.\<close>

fun str_nat :: "nat \<Rightarrow> string" where
  "str_nat n = (if n < 10 then [digit n] else str_nat (n div 10) @ [digit (n mod 10)])"

declare str_nat.simps [simp del]

text \<open>\<open>RangeSet(n)\<close> runs over \<open>1, ..., n\<close> and is empty for \<open>n = 0\<close>.\<close>

definition RangeSet :: "nat \<Rightarrow> nat list" where
  "RangeSet n = [1..<Suc n]"

subsection \<open>Components\<close>

text \<open>
  A connection point is a port: one of the selector's own (known by its attribute name on the
  selector) or one the caller listed in \<open>unit_disjunct_inlet\<close> / \<open>unit_disjunct_outlet\<close>.
\<close>

datatype port = SelectorPort name | ConnectionPoint name

text \<open>
  \<open>Arc(source=..., destination=...)\<close>; \<open>expanded\<close> tells whether the arc has been turned into
  its equality constraints.
\<close>

record arc =
  source :: port
  destination :: port
  expanded :: bool

text \<open>A candidate unit: an object, told from the others by \<open>ident\<close>, and its local name.\<close>

record unit_model =
  ident :: nat
  local_name :: name

text \<open>
  What a disjunct holds under a name: one of its own reserved attributes (the indicator
  variables, \<open>transformation_block\<close>, the methods of the class), a candidate moved into it, or
  an arc. What the selector block holds: a disjunct, or the disjunction with its
  \<open>xor\<close> flag and the disjuncts it is over, which are objects of the same block and referred to
  by their names there.
\<close>

datatype component = ReservedAttr | UnitBlock unit_model | ArcC arc

type_synonym disjunct = "name \<rightharpoonup> component"

datatype sb_component = DisjunctC disjunct | DisjunctionC bool "name list"

text \<open>
  The selector's state blocks, with the arguments they were built from, and its ports, each on
  the state block of the given name.
\<close>

datatype pyval = PyBool bool | PyStr string

record state_block =
  doc :: string
  args :: "(string \<times> pyval) list"

record port_obj =
  block :: name
  port_doc :: string

text \<open>Where a candidate unit is attached: \<open>unit.parent_block()\<close>.\<close>

datatype owner = NoParent | Flowsheet | Branch name | Orphaned

text \<open>
  The selector and what it touches: its attribute \<open>selector_block\<close> (absent until \<open>build\<close> sets
  it), its state blocks \<open><p>_state\<close> and ports \<open><p>\<close> by name, the two lists \<open>build\<close> keeps, the
  flowsheet block the candidates are first attached to, and the parent of every unit.

  \<open>reserved_words\<close> is the library's table of the attribute names a \<open>Disjunct\<close> has of its own
  (\<open>_Block_reserved_words\<close>, the names of a new object of the class). The table is not part of
  the sources, so the model is given it.
\<close>

record model =
  selector_block :: "(name \<rightharpoonup> sb_component) option"
  state_blocks :: "name \<rightharpoonup> state_block"
  ports :: "name \<rightharpoonup> port_obj"
  selector_inlet_block :: "name list"
  selector_outlet_block :: "name list"
  flowsheet :: "name \<rightharpoonup> unit_model"
  parent_block :: "nat \<Rightarrow> owner"
  reserved_words :: "name set"

record template =
  property_package_args :: "(string \<times> pyval) list"

text \<open>
  The configuration, with every option the methods read supplied by the caller: the candidate
  list, the two templates, and the two mappings from an index (a natural number, as the names
  \<open>inlet_<k>\<close> are built from it) to the list of connection points, in the order of the
  dictionary.
\<close>

record config =
  unit_disjunct :: "unit_model list"
  unit_source :: template
  unit_sink :: template
  unit_disjunct_inlet :: "(nat \<times> name list) list"
  unit_disjunct_outlet :: "(nat \<times> name list) list"
  mixed_state_block :: "name option"
  construct_ports :: bool

subsection \<open>Block primitives\<close>

definition getattr :: "(name \<rightharpoonup> 'c) \<Rightarrow> name \<Rightarrow> error + 'c" where
  "getattr b n = (case b n of None \<Rightarrow> Inl AttributeError | Some c \<Rightarrow> Inr c)"

text \<open>
  The names the wiring gives its arcs, and the reserved attribute names of a disjunct: those
  of the table. No attribute of a \<open>Disjunct\<close> has the name of an arc of the wiring, whatever
  the table holds.
\<close>

definition arc_name :: "name \<Rightarrow> bool" where
  "arc_name n \<longleftrightarrow>
     take (length ''inlet_to_unit_arc_'') n = ''inlet_to_unit_arc_'' \<or>
     take (length ''unit_to_outlet_arc_'') n = ''unit_to_outlet_arc_''"

definition reserved :: "name set \<Rightarrow> name \<Rightarrow> bool" where
  "reserved table n \<longleftrightarrow> n \<in> table \<and> \<not> arc_name n"

text \<open>
  \<open>add_component\<close> on a block, given which names are reserved there: a name the block has
  is refused, with \<open>ValueError\<close> when it is a reserved attribute name and with \<open>RuntimeError\<close>
  when it is the name of a component added before.
\<close>

definition add_component ::
  "(name \<Rightarrow> bool) \<Rightarrow> (name \<rightharpoonup> 'c) \<Rightarrow> name \<Rightarrow> 'c \<Rightarrow> error + (name \<rightharpoonup> 'c)" where
  "add_component is_reserved b n c =
     (case b n of
        None \<Rightarrow> Inr (b(n \<mapsto> c))
      | Some _ \<Rightarrow> if is_reserved n then Inl ValueError else Inl RuntimeError)"

definition del_component :: "(name \<rightharpoonup> 'c) \<Rightarrow> name \<Rightarrow> (name \<rightharpoonup> 'c)" where
  "del_component b n = b(n := None)"

text \<open>\<open>Disjunct()\<close>: a new disjunct holds its reserved attributes, each under its name.\<close>

definition Disjunct :: "name set \<Rightarrow> disjunct" where
  "Disjunct table = (\<lambda>n. if reserved table n then Some ReservedAttr else None)"

text \<open>
  \<open>getattr(self, 'selector_block')\<close> and then \<open>getattr(selector_block, n)\<close>, as a disjunct to
  work on: a \<open>Disjunction\<close> found under the name has none of the block methods or members.
\<close>

definition get_disjunct :: "model \<Rightarrow> name \<Rightarrow> error + disjunct" where
  "get_disjunct m n =
     (case selector_block m of
        None \<Rightarrow> Inl AttributeError
      | Some sb \<Rightarrow>
          (case getattr sb n of
             Inl e \<Rightarrow> Inl e
           | Inr (DisjunctionC _ _) \<Rightarrow> Inl AttributeError
           | Inr (DisjunctC d) \<Rightarrow> Inr d))"

text \<open>The disjunct is an object: a change to it is seen under its name in the block.\<close>

definition put_disjunct :: "model \<Rightarrow> name \<Rightarrow> disjunct \<Rightarrow> model" where
  "put_disjunct m n d =
     m\<lparr>selector_block := map_option (\<lambda>sb. sb(n \<mapsto> DisjunctC d)) (selector_block m)\<rparr>"

text \<open>Units of a disjunct that leaves the model keep it as their parent, out of reach.\<close>

definition orphan :: "(name \<Rightarrow> bool) \<Rightarrow> (nat \<Rightarrow> owner) \<Rightarrow> (nat \<Rightarrow> owner)" where
  "orphan gone p = (\<lambda>u. case p u of Branch n \<Rightarrow> (if gone n then Orphaned else Branch n) | w \<Rightarrow> w)"

subsection \<open>Branches and the disjunction\<close>

text \<open>\<open>setattr(self.selector_block, f'unit_disjunct_{idx}', Disjunct())\<close>\<close>

definition set_disjunct :: "nat \<Rightarrow> model \<Rightarrow> (name \<rightharpoonup> sb_component) \<Rightarrow> model" where
  "set_disjunct idx m sb =
     m\<lparr>selector_block := Some (sb(''unit_disjunct_'' @ str_nat idx \<mapsto> DisjunctC (Disjunct (reserved_words m)))),
       parent_block := orphan (\<lambda>n. n = ''unit_disjunct_'' @ str_nat idx) (parent_block m)\<rparr>"

fun create_disjuncts :: "nat list \<Rightarrow> model \<Rightarrow> model result" where
  "create_disjuncts [] m = Inr m"
| "create_disjuncts (idx # idxs) m =
     (case selector_block m of
        None \<Rightarrow> Inl (AttributeError, m)
      | Some sb \<Rightarrow> create_disjuncts idxs (set_disjunct idx m sb))"

text \<open>The list comprehension of the \<open>Disjunction\<close>: the disjuncts, each fetched by name.\<close>

fun disjunct_exprs :: "nat list \<Rightarrow> (name \<rightharpoonup> sb_component) \<Rightarrow> error + name list" where
  "disjunct_exprs [] sb = Inr []"
| "disjunct_exprs (idx # idxs) sb =
     (case getattr sb (''unit_disjunct_'' @ str_nat idx) of
        Inl e \<Rightarrow> Inl e
      | Inr _ \<Rightarrow>
          (case disjunct_exprs idxs sb of
             Inl e \<Rightarrow> Inl e
           | Inr ns \<Rightarrow> Inr ((''unit_disjunct_'' @ str_nat idx) # ns)))"

definition create_unit_disjunct :: "config \<Rightarrow> model \<Rightarrow> model result" where
  "create_unit_disjunct cfg m =
     (case create_disjuncts (RangeSet (length (unit_disjunct cfg))) m of
        Inl e \<Rightarrow> Inl e
      | Inr m1 \<Rightarrow>
          (case selector_block m1 of
             None \<Rightarrow> Inl (AttributeError, m1)
           | Some sb \<Rightarrow>
               (case disjunct_exprs (RangeSet (length (unit_disjunct cfg))) sb of
                  Inl e \<Rightarrow> Inl (e, m1)
                | Inr ns \<Rightarrow>
                    Inr (m1\<lparr>selector_block := Some (sb(''unit_disjunction'' \<mapsto> DisjunctionC True ns)),
                            parent_block :=
                              orphan (\<lambda>n. n = ''unit_disjunction'') (parent_block m1)\<rparr>))))"

text \<open>
  A \<open>Disjunction\<close> constrains the indicators of its disjuncts: exactly one true when it is
  exclusive, at least one otherwise.
\<close>

fun satisfies :: "(name \<Rightarrow> bool) \<Rightarrow> sb_component \<Rightarrow> bool" where
  "satisfies ind (DisjunctionC exclusive ds) =
     (if exclusive then length (filter ind ds) = 1 else filter ind ds \<noteq> [])"
| "satisfies ind (DisjunctC d) = True"

subsection \<open>Moving the candidates into their branches\<close>

text \<open>\<open>unit.parent_block().del_component(unit.local_name)\<close>\<close>

definition del_from_parent :: "unit_model \<Rightarrow> model \<Rightarrow> model result" where
  "del_from_parent u m =
     (case parent_block m (ident u) of
        NoParent \<Rightarrow> Inl (AttributeError, m)
      | Orphaned \<Rightarrow> Inr (m\<lparr>parent_block := (parent_block m)(ident u := NoParent)\<rparr>)
      | Flowsheet \<Rightarrow>
          Inr (m\<lparr>flowsheet := del_component (flowsheet m) (local_name u),
                 parent_block := (parent_block m)(ident u := NoParent)\<rparr>)
      | Branch n \<Rightarrow>
          (case get_disjunct m n of
             Inl e \<Rightarrow> Inr (m\<lparr>parent_block := (parent_block m)(ident u := NoParent)\<rparr>)
           | Inr d \<Rightarrow>
               Inr ((put_disjunct m n (del_component d (local_name u)))
                      \<lparr>parent_block := (parent_block m)(ident u := NoParent)\<rparr>)))"

fun add_units :: "nat \<Rightarrow> unit_model list \<Rightarrow> model \<Rightarrow> model result" where
  "add_units unit_index [] m = Inr m"
| "add_units unit_index (u # us) m =
     (case get_disjunct m (''unit_disjunct_'' @ str_nat (unit_index + 1)) of
        Inl e \<Rightarrow> Inl (e, m)
      | Inr _ \<Rightarrow>
          (case del_from_parent u m of
             Inl e \<Rightarrow> Inl e
           | Inr m1 \<Rightarrow>
               (case get_disjunct m1 (''unit_disjunct_'' @ str_nat (unit_index + 1)) of
                  Inl e \<Rightarrow> Inl (e, m1)
                | Inr d \<Rightarrow>
                    (case add_component (reserved (reserved_words m1)) d (local_name u) (UnitBlock u) of
                       Inl e \<Rightarrow> Inl (e, m1)
                     | Inr d' \<Rightarrow>
                         add_units (unit_index + 1) us
                           ((put_disjunct m1 (''unit_disjunct_'' @ str_nat (unit_index + 1)) d')
                              \<lparr>parent_block :=
                                 (parent_block m1)
                                   (ident u := Branch (''unit_disjunct_'' @ str_nat (unit_index + 1)))\<rparr>)))))"

definition add_units_to_disjunct :: "config \<Rightarrow> model \<Rightarrow> model result" where
  "add_units_to_disjunct cfg m =
     (case selector_block m of
        None \<Rightarrow> Inl (AttributeError, m)
      | Some _ \<Rightarrow> add_units 0 (unit_disjunct cfg) m)"

subsection \<open>State blocks and ports of the selector\<close>

definition create_inlet_list :: "config \<Rightarrow> name list" where
  "create_inlet_list cfg =
     map (\<lambda>n. ''inlet_'' @ str_nat n) [1..<length (unit_disjunct_inlet cfg) + 1]"

definition create_outlet_list :: "config \<Rightarrow> name list" where
  "create_outlet_list cfg =
     map (\<lambda>n. ''outlet_'' @ str_nat n) [1..<length (unit_disjunct_outlet cfg) + 1]"

definition direction :: "bool \<Rightarrow> string" where
  "direction is_inlet = (if is_inlet then ''Inlet'' else ''Outlet'')"

text \<open>
  Modelled from the spec: \<open>build_state_block\<close> of the template's property package, which the
  sources do not hold. It is the state-container factory of the spec: it returns a new state
  block built from the arguments it is given.
\<close>

definition build_state_block :: "string \<Rightarrow> (string \<times> pyval) list \<Rightarrow> state_block" where
  "build_state_block d tmp_dict = \<lparr>doc = d, args = tmp_dict\<rparr>"

definition tmp_dict_of :: "template \<Rightarrow> (string \<times> pyval) list" where
  "tmp_dict_of unit_type =
     AList.update ''defined_state'' (PyBool True)
       (AList.update ''has_phase_equilibrium'' (PyBool False) (property_package_args unit_type))"

fun add_state_blocks :: "template \<Rightarrow> bool \<Rightarrow> name list \<Rightarrow> model \<Rightarrow> model" where
  "add_state_blocks unit_type is_inlet [] m = m"
| "add_state_blocks unit_type is_inlet (p # ps) m =
     add_state_blocks unit_type is_inlet ps
       (m\<lparr>state_blocks :=
            (state_blocks m)(p @ ''_state'' \<mapsto>
               build_state_block (''Selector Unit '' @ direction is_inlet) (tmp_dict_of unit_type))\<rparr>)"

text \<open>The model after the loop, and the list \<open>port_block\<close> the function returns.\<close>

definition add_port_state_block :: "template \<Rightarrow> name list \<Rightarrow> bool \<Rightarrow> model \<Rightarrow> model \<times> name list" where
  "add_port_state_block unit_type port_type_list is_inlet m =
     (add_state_blocks unit_type is_inlet port_type_list m,
      map (\<lambda>p. p @ ''_state'') port_type_list)"

text \<open>
  Modelled from the spec: \<open>add_port\<close> of the unit-model base class, which the sources do not
  hold. It exposes the state block as a named connector of the selector: the port is added to
  the selector as a new component, so a name the selector already has a port under is refused
  with \<open>RuntimeError\<close> (\<open>inlet_<k>\<close> and \<open>outlet_<k>\<close> are no reserved names of the selector).
\<close>

definition add_port :: "name \<Rightarrow> name \<Rightarrow> string \<Rightarrow> model \<Rightarrow> model result" where
  "add_port n b d m =
     (case add_component (\<lambda>_. False) (ports m) n \<lparr>block = b, port_doc = d\<rparr> of
        Inl e \<Rightarrow> Inl (e, m)
      | Inr ps \<Rightarrow> Inr (m\<lparr>ports := ps\<rparr>))"

fun add_ports :: "bool \<Rightarrow> name list \<Rightarrow> model \<Rightarrow> model result" where
  "add_ports is_inlet [] m = Inr m"
| "add_ports is_inlet (p # ps) m =
     (case getattr (state_blocks m) (p @ ''_state'') of
        Inl e \<Rightarrow> Inl (e, m)
      | Inr p_state \<Rightarrow>
          (case add_port p (p @ ''_state'') (''Connector '' @ direction is_inlet @ '' Port'') m of
             Inl e \<Rightarrow> Inl e
           | Inr m1 \<Rightarrow> add_ports is_inlet ps m1))"

definition add_port_objects :: "config \<Rightarrow> name list \<Rightarrow> bool \<Rightarrow> model \<Rightarrow> model result" where
  "add_port_objects cfg port_list is_inlet m =
     (if construct_ports cfg then add_ports is_inlet port_list m else Inr m)"

subsection \<open>Wiring\<close>

text \<open>
  The two wiring methods are the same code up to the port prefix (\<open>inlet_\<close>, \<open>outlet_\<close>), the
  arc prefix and the orientation of the arc, which \<open>wiring\<close> collects.
\<close>

record wiring =
  port_prefix :: string
  arc_prefix :: string
  make_arc :: "port \<Rightarrow> port \<Rightarrow> arc"

definition inlet_wiring :: wiring where
  "inlet_wiring =
     \<lparr>port_prefix = ''inlet_'', arc_prefix = ''inlet_to_unit_arc_'',
      make_arc = (\<lambda>selector_port unit_port.
         \<lparr>source = selector_port, destination = unit_port, expanded = False\<rparr>)\<rparr>"

definition outlet_wiring :: wiring where
  "outlet_wiring =
     \<lparr>port_prefix = ''outlet_'', arc_prefix = ''unit_to_outlet_arc_'',
      make_arc = (\<lambda>selector_port unit_port.
         \<lparr>source = unit_port, destination = selector_port, expanded = False\<rparr>)\<rparr>"

text \<open>The body of both loops: one arc added to the disjunct \<open>unit_disjunct_<b>\<close>.\<close>

definition add_arc :: "wiring \<Rightarrow> nat \<Rightarrow> nat \<Rightarrow> name option \<Rightarrow> model \<Rightarrow> model result" where
  "add_arc w idx b unit_port m =
     (case get_disjunct m (''unit_disjunct_'' @ str_nat b) of
        Inl e \<Rightarrow> Inl (e, m)
      | Inr d \<Rightarrow>
          (case getattr (ports m) (port_prefix w @ str_nat idx) of
             Inl e \<Rightarrow> Inl (e, m)
           | Inr _ \<Rightarrow>
               (case unit_port of
                  None \<Rightarrow> Inl (IndexError, m)
                | Some p \<Rightarrow>
                    (case add_component (reserved (reserved_words m)) d (arc_prefix w @ str_nat b)
                            (ArcC (make_arc w (SelectorPort (port_prefix w @ str_nat idx))
                                     (ConnectionPoint p))) of
                       Inl e \<Rightarrow> Inl (e, m)
                     | Inr d' \<Rightarrow> Inr (put_disjunct m (''unit_disjunct_'' @ str_nat b) d')))))"

fun fan_out :: "wiring \<Rightarrow> nat \<Rightarrow> nat \<Rightarrow> name list \<Rightarrow> model \<Rightarrow> model result" where
  "fan_out w idx dsj_counter [] m = Inr m"
| "fan_out w idx dsj_counter (p # ps) m =
     (case add_arc w idx dsj_counter (Some p) m of
        Inl e \<Rightarrow> Inl e
      | Inr m1 \<Rightarrow> fan_out w idx (dsj_counter + 1) ps m1)"

definition first_elem :: "'a list \<Rightarrow> 'a option" where
  "first_elem xs = (case xs of [] \<Rightarrow> None | x # _ \<Rightarrow> Some x)"

definition wire_index :: "wiring \<Rightarrow> nat \<times> name list \<Rightarrow> model \<Rightarrow> model result" where
  "wire_index w item m =
     (case item of (idx, unit_port_list) \<Rightarrow>
        if length unit_port_list > 1 then fan_out w idx 1 unit_port_list m
        else add_arc w idx idx (first_elem unit_port_list) m)"

fun wire_items :: "wiring \<Rightarrow> (nat \<times> name list) list \<Rightarrow> model \<Rightarrow> model result" where
  "wire_items w [] m = Inr m"
| "wire_items w (item # items) m =
     (case wire_index w item m of
        Inl e \<Rightarrow> Inl e
      | Inr m1 \<Rightarrow> wire_items w items m1)"

definition arc_selector_inlet_to_unit :: "config \<Rightarrow> model \<Rightarrow> model result" where
  "arc_selector_inlet_to_unit cfg m = wire_items inlet_wiring (unit_disjunct_inlet cfg) m"

definition arc_unit_outlet_to_selector :: "config \<Rightarrow> model \<Rightarrow> model result" where
  "arc_unit_outlet_to_selector cfg m = wire_items outlet_wiring (unit_disjunct_outlet cfg) m"

subsection \<open>Build\<close>

text \<open>
  Modelled from the spec: the \<open>network.expand_arcs\<close> transformation, which is not part of the
  sources. It turns every declared arc into its equality constraints; the model records that
  on the arc.
\<close>

definition expand_component :: "component \<Rightarrow> component" where
  "expand_component c = (case c of ArcC a \<Rightarrow> ArcC (a\<lparr>expanded := True\<rparr>) | _ \<Rightarrow> c)"

definition expand_sb_component :: "sb_component \<Rightarrow> sb_component" where
  "expand_sb_component c =
     (case c of
        DisjunctC d \<Rightarrow> DisjunctC (\<lambda>n. map_option expand_component (d n))
      | DisjunctionC x ds \<Rightarrow> DisjunctionC x ds)"

definition expand_arcs :: "model \<Rightarrow> model" where
  "expand_arcs m =
     m\<lparr>selector_block :=
         map_option (\<lambda>sb. \<lambda>n. map_option expand_sb_component (sb n)) (selector_block m)\<rparr>"

text \<open>
  Modelled from the spec: \<open>build\<close> of the unit-model base class, which the sources do not
  hold. The spec gives it no part in the selector's structure.
\<close>

definition super_build :: "model \<Rightarrow> model result" where
  "super_build m = Inr m"

text \<open>\<open>self.selector_block = Block()\<close>: whatever was there leaves the model.\<close>

definition new_selector_block :: "model \<Rightarrow> model" where
  "new_selector_block m =
     m\<lparr>selector_block := Some Map.empty, parent_block := orphan (\<lambda>n. True) (parent_block m)\<rparr>"

definition build_ports :: "config \<Rightarrow> model \<Rightarrow> model result" where
  "build_ports cfg m =
     (let inlet_list = create_inlet_list cfg;
          outlet_list = create_outlet_list cfg;
          (m1, inlet_blocks) = add_port_state_block (unit_source cfg) inlet_list True m;
          m2 = m1\<lparr>selector_inlet_block := inlet_blocks\<rparr>;
          (m3, outlet_blocks) = add_port_state_block (unit_sink cfg) outlet_list False m2;
          m4 = m3\<lparr>selector_outlet_block := outlet_blocks\<rparr>
      in case add_port_objects cfg inlet_list True m4 of
           Inl e \<Rightarrow> Inl e
         | Inr m5 \<Rightarrow> add_port_objects cfg outlet_list False m5)"

definition build :: "config \<Rightarrow> model \<Rightarrow> model result" where
  "build cfg m =
     (case super_build m of
        Inl e \<Rightarrow> Inl e
      | Inr m0 \<Rightarrow>
     (case create_unit_disjunct cfg (new_selector_block m0) of
        Inl e \<Rightarrow> Inl e
      | Inr m1 \<Rightarrow>
     (case add_units_to_disjunct cfg m1 of
        Inl e \<Rightarrow> Inl e
      | Inr m2 \<Rightarrow>
     (case build_ports cfg m2 of
        Inl e \<Rightarrow> Inl e
      | Inr m3 \<Rightarrow>
     (case arc_selector_inlet_to_unit cfg m3 of
        Inl e \<Rightarrow> Inl e
      | Inr m4 \<Rightarrow>
     (case arc_unit_outlet_to_selector cfg m4 of
        Inl e \<Rightarrow> Inl e
      | Inr m5 \<Rightarrow> Inr (expand_arcs m5)))))))"

text \<open>The part of \<open>build\<close> before the wiring: the model the inlet wiring starts from.\<close>

definition before_wiring :: "config \<Rightarrow> model \<Rightarrow> model result" where
  "before_wiring cfg m =
     (case super_build m of
        Inl e \<Rightarrow> Inl e
      | Inr m0 \<Rightarrow>
     (case create_unit_disjunct cfg (new_selector_block m0) of
        Inl e \<Rightarrow> Inl e
      | Inr m1 \<Rightarrow>
     (case add_units_to_disjunct cfg m1 of
        Inl e \<Rightarrow> Inl e
      | Inr m2 \<Rightarrow> build_ports cfg m2)))"

subsection \<open>Initialize\<close>

text \<open>
  Initialization reads the built structure and changes two things: the values held at the
  ports, and the record of which candidates have had their own \<open>initialize\<close> called, and with
  which options.
\<close>

record ('v, 'k) init_state =
  var_values :: "port \<Rightarrow> 'v"
  init_calls :: "(unit_model \<times> 'k) list"

text \<open>
  A candidate's own \<open>initialize\<close> is the candidate's business: the selector is given it. It gets
  the options and the values, and returns the values it leaves and the error it raised, if
  any.
\<close>

type_synonym ('v, 'k) unit_initialize =
  "unit_model \<Rightarrow> 'k \<Rightarrow> (port \<Rightarrow> 'v) \<Rightarrow> error option \<times> (port \<Rightarrow> 'v)"

text \<open>
  Modelled from the spec: \<open>propagate_state\<close> of the initialization utilities, which the sources
  do not hold. On an arc it copies the values at the arc's source to the arc's destination, one
  way; it accepts nothing but an arc.
\<close>

definition propagate_state ::
  "component \<Rightarrow> ('v, 'k) init_state \<Rightarrow> error option \<times> ('v, 'k) init_state" where
  "propagate_state c st =
     (case c of
        ArcC a \<Rightarrow>
          (None, st\<lparr>var_values := (var_values st)(destination a := var_values st (source a))\<rparr>)
      | _ \<Rightarrow> (Some RuntimeError, st))"

text \<open>\<open>unit_block.initialize(**kwargs)\<close>: only a unit has the method.\<close>

definition initialize_block ::
  "('v, 'k) unit_initialize \<Rightarrow> component \<Rightarrow> 'k \<Rightarrow> ('v, 'k) init_state
     \<Rightarrow> error option \<times> ('v, 'k) init_state" where
  "initialize_block ui c kwargs st =
     (case c of
        UnitBlock u \<Rightarrow>
          (case ui u kwargs (var_values st) of
             (r, vs) \<Rightarrow> (r, \<lparr>var_values = vs, init_calls = init_calls st @ [(u, kwargs)]\<rparr>))
      | _ \<Rightarrow> (Some AttributeError, st))"

fun initialize_units ::
  "('v, 'k) unit_initialize \<Rightarrow> 'k \<Rightarrow> model \<Rightarrow> nat \<Rightarrow> unit_model list \<Rightarrow> ('v, 'k) init_state
     \<Rightarrow> error option \<times> ('v, 'k) init_state" where
  "initialize_units ui kwargs m unit_index [] st = (None, st)"
| "initialize_units ui kwargs m unit_index (u # us) st =
     (case get_disjunct m (''unit_disjunct_'' @ str_nat (unit_index + 1)) of
        Inl e \<Rightarrow> (Some e, st)
      | Inr d \<Rightarrow>
     (case getattr d (local_name u) of
        Inl e \<Rightarrow> (Some e, st)
      | Inr unit_block \<Rightarrow>
     (case getattr d (''inlet_to_unit_arc_'' @ str_nat (unit_index + 1)) of
        Inl e \<Rightarrow> (Some e, st)
      | Inr inlet_arc \<Rightarrow>
     (case propagate_state inlet_arc st of
        (Some e, st1) \<Rightarrow> (Some e, st1)
      | (None, st1) \<Rightarrow>
     (case initialize_block ui unit_block kwargs st1 of
        (Some e, st2) \<Rightarrow> (Some e, st2)
      | (None, st2) \<Rightarrow>
     (case getattr d (''unit_to_outlet_arc_'' @ str_nat (unit_index + 1)) of
        Inl e \<Rightarrow> (Some e, st2)
      | Inr outlet_arc \<Rightarrow> initialize_units ui kwargs m (unit_index + 1) us st2))))))"

declare initialize_units.simps(2) [simp del]

definition initialize ::
  "('v, 'k) unit_initialize \<Rightarrow> config \<Rightarrow> 'k \<Rightarrow> model \<Rightarrow> ('v, 'k) init_state
     \<Rightarrow> error option \<times> ('v, 'k) init_state" where
  "initialize ui cfg kwargs m st =
     (case selector_block m of
        None \<Rightarrow> (Some AttributeError, st)
      | Some _ \<Rightarrow> initialize_units ui kwargs m 0 (unit_disjunct cfg) st)"

subsection \<open>Observations used by the properties\<close>

text \<open>What a component of the selector block is: a disjunct, or a disjunction with its data.\<close>

definition kind :: "sb_component \<Rightarrow> (bool \<times> name list) option" where
  "kind c = (case c of DisjunctC _ \<Rightarrow> None | DisjunctionC x ds \<Rightarrow> Some (x, ds))"

definition shape :: "model \<Rightarrow> (name \<rightharpoonup> (bool \<times> name list) option) option" where
  "shape m = map_option (\<lambda>sb n. map_option kind (sb n)) (selector_block m)"

text \<open>
  The selector block holds the \<open>N\<close> branches and their selection constraint: the disjuncts are
  those named \<open>unit_disjunct_1 .. unit_disjunct_N\<close>, the only disjunction is \<open>unit_disjunction\<close>
  over them, and the constraints of the block hold exactly when one branch is active.
\<close>

definition one_of_N :: "nat \<Rightarrow> (name \<rightharpoonup> sb_component) \<Rightarrow> bool" where
  "one_of_N N sb \<longleftrightarrow>
     (\<forall>n. (\<exists>d. sb n = Some (DisjunctC d)) \<longleftrightarrow>
          (\<exists>i. 1 \<le> i \<and> i \<le> N \<and> n = ''unit_disjunct_'' @ str_nat i)) \<and>
     card {n. \<exists>d. sb n = Some (DisjunctC d)} = N \<and>
     (\<forall>n x ds. sb n = Some (DisjunctionC x ds) \<longleftrightarrow>
          n = ''unit_disjunction'' \<and> x \<and>
          ds = map (\<lambda>i. ''unit_disjunct_'' @ str_nat i) [1..<Suc N]) \<and>
     (\<forall>ind. (\<forall>n c. sb n = Some c \<longrightarrow> satisfies ind c) \<longleftrightarrow>
          (\<exists>!i. 1 \<le> i \<and> i \<le> N \<and> ind (''unit_disjunct_'' @ str_nat i)))"

text \<open>The edges of the structure: the arc found in branch \<open>b\<close> under the name \<open>n\<close>.\<close>

definition edges :: "model \<Rightarrow> name \<times> name \<Rightarrow> arc option" where
  "edges m =
     (\<lambda>(b, n). case get_disjunct m b of
                 Inl _ \<Rightarrow> None
               | Inr d \<Rightarrow> (case d n of Some (ArcC a) \<Rightarrow> Some a | _ \<Rightarrow> None))"

text \<open>The positions a run of the wiring filled.\<close>

definition created :: "model \<Rightarrow> model \<Rightarrow> (name \<times> name) set" where
  "created m m' = dom (edges m') - dom (edges m)"

text \<open>No branch holds an arc.\<close>

definition no_edges :: "model \<Rightarrow> bool" where
  "no_edges m \<longleftrightarrow> (\<forall>x. edges m x = None)"






text \<open>
  Branches \<open>i+1 .. i+n\<close> are as \<open>Disjunct()\<close> made them, and the units that have a branch as
  their parent have one of the branches \<open>1 .. i\<close>.
\<close>

definition fresh_from :: "model \<Rightarrow> nat \<Rightarrow> nat \<Rightarrow> bool" where
  "fresh_from m i n \<longleftrightarrow>
     (\<forall>j. i < j \<and> j \<le> i + n \<longrightarrow>
        get_disjunct m (''unit_disjunct_'' @ str_nat j) = Inr (Disjunct (reserved_words m))) \<and>
     (\<forall>x b. parent_block m x = Branch b \<longrightarrow>
        (\<exists>j. 1 \<le> j \<and> j \<le> i \<and> b = ''unit_disjunct_'' @ str_nat j))"

subsection \<open>Scenarios\<close>

text \<open>
  The scenario of the spec: two candidates, one inlet index and one outlet index, each with a
  fan-out list of length two.
\<close>

definition example_units :: "unit_model list" where
  "example_units = [\<lparr>ident = 1, local_name = ''R1''\<rparr>, \<lparr>ident = 2, local_name = ''R2''\<rparr>]"

definition example_config :: config where
  "example_config =
     \<lparr>unit_disjunct = example_units,
      unit_source = \<lparr>property_package_args = []\<rparr>,
      unit_sink = \<lparr>property_package_args = []\<rparr>,
      unit_disjunct_inlet = [(1, [''R1.inlet'', ''R2.inlet''])],
      unit_disjunct_outlet = [(1, [''R1.outlet'', ''R2.outlet''])],
      mixed_state_block = None,
      construct_ports = True\<rparr>"

text \<open>Some of the attribute names of a \<open>Disjunct\<close>, as the table of the scenarios.\<close>

definition example_reserved :: "name set" where
  "example_reserved =
     {''indicator_var'', ''binary_indicator_var'', ''transformation_block'', ''name'',
      ''local_name'', ''parent_block'', ''add_component'', ''del_component'', ''activate'',
      ''deactivate'', ''active''}"

definition example_model :: model where
  "example_model =
     \<lparr>selector_block = None, state_blocks = Map.empty, ports = Map.empty,
      selector_inlet_block = [], selector_outlet_block = [],
      flowsheet = [''R1'' \<mapsto> \<lparr>ident = 1, local_name = ''R1''\<rparr>,
                   ''R2'' \<mapsto> \<lparr>ident = 2, local_name = ''R2''\<rparr>],
      parent_block = (\<lambda>_. Flowsheet),
      reserved_words = example_reserved\<rparr>"

text \<open>The two candidates in their branches and the selector's ports, before any wiring.\<close>

definition example_ready :: model where
  "example_ready =
     \<lparr>selector_block = Some
        [''unit_disjunct_1'' \<mapsto> DisjunctC ((Disjunct example_reserved)(''R1'' \<mapsto> UnitBlock \<lparr>ident = 1, local_name = ''R1''\<rparr>)),
         ''unit_disjunct_2'' \<mapsto> DisjunctC ((Disjunct example_reserved)(''R2'' \<mapsto> UnitBlock \<lparr>ident = 2, local_name = ''R2''\<rparr>)),
         ''unit_disjunction'' \<mapsto> DisjunctionC True [''unit_disjunct_1'', ''unit_disjunct_2'']],
      state_blocks = Map.empty,
      ports = [''inlet_1'' \<mapsto> \<lparr>block = ''inlet_1_state'', port_doc = ''Connector Inlet Port''\<rparr>,
               ''inlet_2'' \<mapsto> \<lparr>block = ''inlet_2_state'', port_doc = ''Connector Inlet Port''\<rparr>,
               ''outlet_1'' \<mapsto> \<lparr>block = ''outlet_1_state'', port_doc = ''Connector Outlet Port''\<rparr>,
               ''outlet_2'' \<mapsto> \<lparr>block = ''outlet_2_state'', port_doc = ''Connector Outlet Port''\<rparr>],
      selector_inlet_block = [], selector_outlet_block = [],
      flowsheet = Map.empty,
      parent_block = (\<lambda>_. Flowsheet),
      reserved_words = example_reserved\<rparr>"

text \<open>The same candidates, each with its own inlet and outlet index: lists of length one.\<close>

definition example_config_single :: config where
  "example_config_single =
     example_config\<lparr>unit_disjunct_inlet := [(1, [''R1.inlet'']), (2, [''R2.inlet''])],
                    unit_disjunct_outlet := [(1, [''R1.outlet'']), (2, [''R2.outlet''])]\<rparr>"

text \<open>Variations of the scenario for the wiring: what the inlet mapping may look like.\<close>

definition example_config_long :: config where
  "example_config_long =
     example_config\<lparr>unit_disjunct_inlet := [(1, [''R1.inlet'', ''R2.inlet'', ''R3.inlet''])]\<rparr>"

definition example_config_empty :: config where
  "example_config_empty = example_config\<lparr>unit_disjunct_inlet := [(1, [])]\<rparr>"

definition example_config_far :: config where
  "example_config_far = example_config\<lparr>unit_disjunct_inlet := [(3, [''R3.inlet''])]\<rparr>"

definition example_config_two :: config where
  "example_config_two =
     example_config\<lparr>unit_disjunct_inlet :=
                      [(1, [''R1.inlet'', ''R2.inlet'']), (2, [''R1.inlet2'', ''R2.inlet2''])],
                    unit_disjunct_outlet :=
                      [(1, [''R1.outlet'', ''R2.outlet'']), (2, [''R1.outlet2'', ''R2.outlet2''])]\<rparr>"

text \<open>No candidate at all, and a candidate named like a member every disjunct has.\<close>

definition example_config_none :: config where
  "example_config_none =
     example_config\<lparr>unit_disjunct := [], unit_disjunct_inlet := [], unit_disjunct_outlet := []\<rparr>"

definition example_config_clash :: config where
  "example_config_clash =
     example_config\<lparr>unit_disjunct := [\<lparr>ident = 1, local_name = ''indicator_var''\<rparr>]\<rparr>"

text \<open>
  Candidates for the scenario: one that always returns, having set the values at its outlet,
  and one whose first unit always fails. The state to start from has the value 7 at the
  selector's first inlet and 0 everywhere else.
\<close>

definition example_init_ok :: "(nat, string list) unit_initialize" where
  "example_init_ok u kwargs vs = (None, vs(ConnectionPoint (local_name u @ ''.outlet'') := 1))"


definition example_state :: "(nat, string list) init_state" where
  "example_state = \<lparr>var_values = (\<lambda>_. 0)(SelectorPort ''inlet_1'' := 7), init_calls = []\<rparr>"

text \<open>
  Two fan-out lists at the inlet, the first longer than the number of branches, and two
  fan-out lists at the outlet.
\<close>

definition example_config_two_long :: config where
  "example_config_two_long =
     example_config\<lparr>unit_disjunct_inlet :=
                      [(1, [''R1.inlet'', ''R2.inlet'', ''R3.inlet'']),
                       (2, [''R1.inlet2'', ''R2.inlet2''])]\<rparr>"

definition example_config_two_outlets :: config where
  "example_config_two_outlets =
     example_config\<lparr>unit_disjunct_outlet :=
                      [(1, [''R1.outlet'', ''R2.outlet'']), (2, [''R1.outlet2'', ''R2.outlet2''])]\<rparr>"



section \<open>Facts about names\<close>

lemma digit_inj: "a < 10 \<Longrightarrow> b < 10 \<Longrightarrow> digit a = digit b \<Longrightarrow> a = b"
  unfolding digit_def
  by (simp add: nth_Cons' less_Suc_eq numeral_nat split: if_splits)

lemma str_nat_ne: "str_nat n \<noteq> []"
  by (subst str_nat.simps) simp

lemma str_nat_inj: "str_nat a = str_nat b \<Longrightarrow> a = b"
proof (induction a arbitrary: b rule: str_nat.induct)
  case (1 n)
  show ?case
  proof (cases "n < 10")
    case True
    then have n: "str_nat n = [digit n]" by (subst str_nat.simps) simp
    show ?thesis
    proof (cases "b < 10")
      case b: True
      then have "str_nat b = [digit b]" by (subst str_nat.simps) simp
      with n "1.prems" True b show ?thesis by (auto dest: digit_inj)
    next
      case False
      then have "str_nat b = str_nat (b div 10) @ [digit (b mod 10)]" by (subst str_nat.simps) simp
      with n "1.prems" str_nat_ne [of "b div 10"] show ?thesis by auto
    qed
  next
    case False
    then have n: "str_nat n = str_nat (n div 10) @ [digit (n mod 10)]" by (subst str_nat.simps) simp
    show ?thesis
    proof (cases "b < 10")
      case True
      then have "str_nat b = [digit b]" by (subst str_nat.simps) simp
      with n "1.prems" str_nat_ne [of "n div 10"] show ?thesis by auto
    next
      case b: False
      then have "str_nat b = str_nat (b div 10) @ [digit (b mod 10)]" by (subst str_nat.simps) simp
      with n "1.prems" have e: "str_nat (n div 10) = str_nat (b div 10)" "digit (n mod 10) = digit (b mod 10)"
        by simp_all
      from "1.IH" [OF False e(1)] have "n div 10 = b div 10" .
      moreover from e(2) have "n mod 10 = b mod 10" by (auto dest!: digit_inj [rotated 2])
      ultimately show ?thesis by (metis div_mult_mod_eq)
    qed
  qed
qed

lemma str_nat_eq_iff [simp]: "str_nat a = str_nat b \<longleftrightarrow> a = b"
  by (auto dest: str_nat_inj)

section \<open>Branches and the selection constraint\<close>

lemma get_disjunct_Inr:
  "get_disjunct m n = Inr d \<longleftrightarrow> (\<exists>sb. selector_block m = Some sb \<and> sb n = Some (DisjunctC d))"
  by (auto simp: get_disjunct_def getattr_def split: option.splits sum.splits sb_component.splits)

lemma shape_put_disjunct:
  "get_disjunct m n = Inr d \<Longrightarrow> shape (put_disjunct m n d') = shape m"
  by (auto simp: get_disjunct_Inr shape_def put_disjunct_def kind_def fun_eq_iff)

lemma shape_parent [simp]: "shape (m\<lparr>parent_block := p\<rparr>) = shape m"
  by (simp add: shape_def)

lemma shape_flowsheet [simp]: "shape (m\<lparr>flowsheet := p\<rparr>) = shape m"
  by (simp add: shape_def)

lemma shape_add_arc: "add_arc w idx b p m = Inr m' \<Longrightarrow> shape m' = shape m"
  by (auto simp: add_arc_def shape_put_disjunct split: sum.splits option.splits)

lemma shape_fan_out: "fan_out w idx c ps m = Inr m' \<Longrightarrow> shape m' = shape m"
  by (induction ps arbitrary: c m) (auto split: sum.splits dest: shape_add_arc)

lemma shape_wire_index: "wire_index w item m = Inr m' \<Longrightarrow> shape m' = shape m"
  by (auto simp: wire_index_def split: prod.splits if_splits dest: shape_fan_out shape_add_arc)

lemma shape_wire_items: "wire_items w items m = Inr m' \<Longrightarrow> shape m' = shape m"
  by (induction items arbitrary: m) (auto split: sum.splits dest: shape_wire_index)

lemma shape_del_from_parent: "del_from_parent u m = Inr m' \<Longrightarrow> shape m' = shape m"
  by (auto simp: del_from_parent_def shape_put_disjunct split: owner.splits sum.splits)

lemma shape_add_units: "add_units i us m = Inr m' \<Longrightarrow> shape m' = shape m"
proof (induction us arbitrary: i m)
  case Nil
  then show ?case by simp
next
  case (Cons u us)
  then show ?case
    by (auto split: sum.splits simp: shape_put_disjunct dest!: shape_del_from_parent)
qed

lemma sb_add_state_blocks [simp]:
  "selector_block (add_state_blocks t b ps m) = selector_block m"
  by (induction ps arbitrary: m) auto

lemma sb_add_ports: "add_ports b ps m = Inr m' \<Longrightarrow> selector_block m' = selector_block m"
  by (induction ps arbitrary: m)
    (auto split: sum.splits option.splits simp: add_port_def add_component_def)

lemma sb_build_ports: "build_ports cfg m = Inr m' \<Longrightarrow> selector_block m' = selector_block m"
  by (auto simp: build_ports_def add_port_state_block_def add_port_objects_def Let_def
      split: sum.splits if_splits dest!: sb_add_ports)

lemma kind_expand [simp]: "kind (expand_sb_component c) = kind c"
  by (simp add: kind_def expand_sb_component_def split: sb_component.splits)

lemma shape_expand_arcs [simp]: "shape (expand_arcs m) = shape m"
  by (cases "selector_block m")
    (simp_all add: shape_def expand_arcs_def fun_eq_iff option.map_comp comp_def)

lemma reserved_words_set_disjunct [simp]:
  "reserved_words (set_disjunct i m sb) = reserved_words m"
  by (simp add: set_disjunct_def)

lemma reserved_words_put_disjunct [simp]:
  "reserved_words (put_disjunct m n d) = reserved_words m"
  by (simp add: put_disjunct_def)

lemma create_disjuncts_sb:
  "selector_block m = Some sb \<Longrightarrow>
   \<exists>m1. create_disjuncts idxs m = Inr m1 \<and> reserved_words m1 = reserved_words m \<and>
     selector_block m1 =
       Some (\<lambda>n. if n \<in> (\<lambda>i. ''unit_disjunct_'' @ str_nat i) ` set idxs
                 then Some (DisjunctC (Disjunct (reserved_words m))) else sb n)"
proof (induction idxs arbitrary: m sb)
  case Nil
  then show ?case by simp
next
  case (Cons i idxs)
  have "selector_block (set_disjunct i m sb) =
          Some (sb(''unit_disjunct_'' @ str_nat i \<mapsto> DisjunctC (Disjunct (reserved_words m))))"
    by (simp add: set_disjunct_def)
  from Cons.IH [OF this] Cons.prems show ?case
    by (auto simp: fun_eq_iff)
qed

lemma disjunct_exprs_all:
  "\<forall>i\<in>set idxs. sb (''unit_disjunct_'' @ str_nat i) \<noteq> None \<Longrightarrow>
   disjunct_exprs idxs sb = Inr (map (\<lambda>i. ''unit_disjunct_'' @ str_nat i) idxs)"
  by (induction idxs) (auto simp: getattr_def split: option.splits)

lemma create_unit_disjunct_fresh:
  "selector_block m = Some Map.empty \<Longrightarrow>
   \<exists>m1. create_unit_disjunct cfg m = Inr m1 \<and>
     selector_block m1 =
       Some ((\<lambda>n. if n \<in> (\<lambda>i. ''unit_disjunct_'' @ str_nat i) ` {1..length (unit_disjunct cfg)}
                  then Some (DisjunctC (Disjunct (reserved_words m))) else None)
             (''unit_disjunction'' \<mapsto>
                DisjunctionC True
                  (map (\<lambda>i. ''unit_disjunct_'' @ str_nat i) [1..<Suc (length (unit_disjunct cfg))])))"
proof -
  let ?idxs = "RangeSet (length (unit_disjunct cfg))"
  assume "selector_block m = Some Map.empty"
  from create_disjuncts_sb [OF this, of ?idxs] obtain m1 where
    m1: "create_disjuncts ?idxs m = Inr m1"
    "selector_block m1 =
       Some (\<lambda>n. if n \<in> (\<lambda>i. ''unit_disjunct_'' @ str_nat i) ` set ?idxs
                 then Some (DisjunctC (Disjunct (reserved_words m))) else None)"
    by auto
  have s: "set ?idxs = {1..length (unit_disjunct cfg)}"
    by (auto simp: RangeSet_def)
  have "disjunct_exprs ?idxs
          (\<lambda>n. if n \<in> (\<lambda>i. ''unit_disjunct_'' @ str_nat i) ` set ?idxs
                then Some (DisjunctC (Disjunct (reserved_words m))) else None) =
        Inr (map (\<lambda>i. ''unit_disjunct_'' @ str_nat i) ?idxs)"
    by (rule disjunct_exprs_all) auto
  with m1 s show ?thesis
    by (simp add: create_unit_disjunct_def RangeSet_def)
qed

lemma singleton_iff_ex1: "(\<exists>i. S = {i}) \<longleftrightarrow> (\<exists>!i. i \<in> S)"
  by auto

lemma satisfies_exactly_one:
  "satisfies ind (DisjunctionC True (map (\<lambda>i. ''unit_disjunct_'' @ str_nat i) [1..<Suc N])) \<longleftrightarrow>
   (\<exists>!i. 1 \<le> i \<and> i \<le> N \<and> ind (''unit_disjunct_'' @ str_nat i))"
proof -
  let ?f = "\<lambda>i. ''unit_disjunct_'' @ str_nat i"
  let ?S = "{i. 1 \<le> i \<and> i \<le> N \<and> ind (?f i)}"
  have "length (filter ind (map ?f [1..<Suc N])) = length (filter (\<lambda>i. ind (?f i)) [1..<Suc N])"
    by (simp add: filter_map comp_def)
  also have "\<dots> = card ({i. ind (?f i)} \<inter> set [1..<Suc N])"
    by (rule distinct_length_filter) simp
  also have "{i. ind (?f i)} \<inter> set [1..<Suc N] = ?S"
    by auto
  finally have "satisfies ind (DisjunctionC True (map ?f [1..<Suc N])) \<longleftrightarrow> card ?S = 1"
    by simp
  also have "\<dots> \<longleftrightarrow> (\<exists>i. ?S = {i})"
    by (simp only: One_nat_def card_1_singleton_iff)
  also have "\<dots> \<longleftrightarrow> (\<exists>!i. i \<in> ?S)"
    by (rule singleton_iff_ex1)
  finally show ?thesis by simp
qed

lemma one_of_N_cong:
  assumes k: "\<And>n. map_option kind (sb' n) = map_option kind (sb n)"
    and P: "one_of_N N sb"
  shows "one_of_N N sb'"
proof -
  have a: "(\<exists>d. sb' n = Some (DisjunctC d)) \<longleftrightarrow> (\<exists>d. sb n = Some (DisjunctC d))" for n
    using k [of n] by (cases "sb n"; cases "sb' n") (auto simp: kind_def split: sb_component.splits)
  have b: "sb' n = Some (DisjunctionC x ds) \<longleftrightarrow> sb n = Some (DisjunctionC x ds)" for n x ds
    using k [of n] by (cases "sb n"; cases "sb' n") (auto simp: kind_def split: sb_component.splits)
  have c: "(\<forall>n c. sb' n = Some c \<longrightarrow> satisfies ind c) \<longleftrightarrow> (\<forall>n c. sb n = Some c \<longrightarrow> satisfies ind c)"
    for ind
  proof -
    have r: "(\<forall>n c. s n = Some c \<longrightarrow> satisfies ind c) \<longleftrightarrow>
          (\<forall>n x ds. s n = Some (DisjunctionC x ds) \<longrightarrow> satisfies ind (DisjunctionC x ds))"
      for s :: "name \<rightharpoonup> sb_component"
    proof (intro iffI allI impI)
      fix n c assume h: "\<forall>n x ds. s n = Some (DisjunctionC x ds) \<longrightarrow> satisfies ind (DisjunctionC x ds)"
        and "s n = Some c"
      then show "satisfies ind c" by (cases c) auto
    qed blast
    show ?thesis unfolding r [of sb'] r [of sb] by (simp only: b)
  qed
  have "one_of_N N sb' = one_of_N N sb"
    unfolding one_of_N_def a b c ..
  with P show ?thesis by simp
qed

lemma one_of_N_fresh:
  "one_of_N N
     ((\<lambda>n. if n \<in> (\<lambda>i. ''unit_disjunct_'' @ str_nat i) ` {1..N}
           then Some (DisjunctC D) else None)
      (''unit_disjunction'' \<mapsto>
         DisjunctionC True (map (\<lambda>i. ''unit_disjunct_'' @ str_nat i) [1..<Suc N])))"
  (is "one_of_N N ?sb")
proof -
  let ?f = "\<lambda>i. ''unit_disjunct_'' @ str_nat i"
  have d: "(\<exists>d. ?sb n = Some (DisjunctC d)) \<longleftrightarrow> n \<in> ?f ` {1..N}" for n
    by auto
  have "{n. \<exists>d. ?sb n = Some (DisjunctC d)} = ?f ` {1..N}"
    using d by blast
  moreover have "card (?f ` {1..N}) = N"
    by (subst card_image) (auto simp: inj_on_def)
  ultimately have 2: "card {n. \<exists>d. ?sb n = Some (DisjunctC d)} = N" by simp
  have 1: "\<forall>n. (\<exists>d. ?sb n = Some (DisjunctC d)) \<longleftrightarrow> (\<exists>i. 1 \<le> i \<and> i \<le> N \<and> n = ?f i)"
    unfolding d by auto
  have 3: "\<forall>n x ds. ?sb n = Some (DisjunctionC x ds) \<longleftrightarrow>
            n = ''unit_disjunction'' \<and> x \<and> ds = map ?f [1..<Suc N]"
    by auto
  have 4: "(\<forall>n c. ?sb n = Some c \<longrightarrow> satisfies ind c) \<longleftrightarrow>
           (\<exists>!i. 1 \<le> i \<and> i \<le> N \<and> ind (?f i))" for ind
  proof -
    have "(\<forall>n c. ?sb n = Some c \<longrightarrow> satisfies ind c) \<longleftrightarrow>
          satisfies ind (DisjunctionC True (map ?f [1..<Suc N]))"
      by (auto split: if_splits)
    then show ?thesis by (simp only: satisfies_exactly_one)
  qed
  show ?thesis
    unfolding one_of_N_def using 1 2 3 4 by blast
qed

lemma shape_build:
  assumes "build cfg m = Inr m'"
  shows "\<exists>m1. create_unit_disjunct cfg (new_selector_block m) = Inr m1 \<and> shape m' = shape m1"
proof -
  from assms obtain m1 m2 m3 m4 m5 where
    s: "create_unit_disjunct cfg (new_selector_block m) = Inr m1"
       "add_units_to_disjunct cfg m1 = Inr m2"
       "build_ports cfg m2 = Inr m3"
       "arc_selector_inlet_to_unit cfg m3 = Inr m4"
       "arc_unit_outlet_to_selector cfg m4 = Inr m5"
       "m' = expand_arcs m5"
    by (auto simp: build_def super_build_def split: sum.splits)
  from s(2) have "shape m2 = shape m1"
    by (auto simp: add_units_to_disjunct_def split: option.splits dest: shape_add_units)
  moreover from s(3) have "shape m3 = shape m2"
    by (auto simp: shape_def dest: sb_build_ports)
  moreover from s(4) have "shape m4 = shape m3"
    by (auto simp: arc_selector_inlet_to_unit_def dest: shape_wire_items)
  moreover from s(5) have "shape m5 = shape m4"
    by (auto simp: arc_unit_outlet_to_selector_def dest: shape_wire_items)
  ultimately show ?thesis using s(1,6) by simp
qed

lemma example_build: "\<exists>m'. build example_config example_model = Inr m'"
  by (simp add: build_def super_build_def new_selector_block_def create_unit_disjunct_def
      example_config_def example_model_def example_units_def RangeSet_def set_disjunct_def
      getattr_def str_nat.simps digit_def add_units_to_disjunct_def get_disjunct_def
      del_from_parent_def add_component_def Disjunct_def put_disjunct_def del_component_def
      build_ports_def create_inlet_list_def create_outlet_list_def add_port_state_block_def
      add_port_objects_def add_port_def arc_selector_inlet_to_unit_def
      arc_unit_outlet_to_selector_def wire_index_def add_arc_def inlet_wiring_def
      outlet_wiring_def orphan_def upt_rec reserved_def arc_name_def example_reserved_def)

text \<open>
  C1. For a candidate list of length \<open>N \<ge> 1\<close>, the branch stage of \<open>build\<close> succeeds on the new
  selector block and every build that returns leaves a selector block in which the disjuncts
  are exactly \<open>unit_disjunct_1 .. unit_disjunct_N\<close> (\<open>N\<close> of them), the only disjunction is
  \<open>unit_disjunction\<close>, exclusive and over precisely those disjuncts in order, and an assignment
  of the indicators meets the block's constraints exactly when one single branch is active.
\<close>

theorem build_branches_and_selection:
  assumes "1 \<le> length (unit_disjunct cfg)"
  shows "(\<exists>m1 sb. create_unit_disjunct cfg (new_selector_block m) = Inr m1 \<and>
            selector_block m1 = Some sb \<and> one_of_N (length (unit_disjunct cfg)) sb) \<and>
         (\<forall>m'. build cfg m = Inr m' \<longrightarrow>
            (\<exists>sb. selector_block m' = Some sb \<and> one_of_N (length (unit_disjunct cfg)) sb))"
proof -
  let ?N = "length (unit_disjunct cfg)"
  have "selector_block (new_selector_block m) = Some Map.empty"
    by (simp add: new_selector_block_def)
  from create_unit_disjunct_fresh [OF this, of cfg] obtain m1 sb where
    m1: "create_unit_disjunct cfg (new_selector_block m) = Inr m1" "selector_block m1 = Some sb"
      "one_of_N ?N sb"
    using one_of_N_fresh [of ?N "Disjunct (reserved_words (new_selector_block m))"] by auto
  have "\<exists>sb'. selector_block m' = Some sb' \<and> one_of_N ?N sb'" if "build cfg m = Inr m'" for m'
  proof -
    from shape_build [OF that] m1(1) have sh: "shape m' = shape m1" by auto
    with m1(2) obtain sb' where sb': "selector_block m' = Some sb'"
      by (auto simp: shape_def)
    with sh m1(2) have "map_option kind (sb' n) = map_option kind (sb n)" for n
      by (auto simp: shape_def fun_eq_iff)
    from one_of_N_cong [OF this m1(3)] sb' show ?thesis by blast
  qed
  with m1 show ?thesis by blast
qed

theorem build_branches_and_selection_witness:
  "1 \<le> length (unit_disjunct example_config) \<and>
   (\<exists>m' sb. build example_config example_model = Inr m' \<and> selector_block m' = Some sb \<and>
      one_of_N 2 sb)"
proof -
  have n: "length (unit_disjunct example_config) = 2"
    by (simp add: example_config_def example_units_def)
  from example_build obtain m' where m': "build example_config example_model = Inr m'" ..
  from build_branches_and_selection [of example_config example_model] n m'
  show ?thesis by auto
qed

section \<open>Wiring\<close>

lemma get_put_disjunct:
  "selector_block m = Some sb \<Longrightarrow>
   get_disjunct (put_disjunct m n d) n' = (if n' = n then Inr d else get_disjunct m n')"
  by (simp add: get_disjunct_def put_disjunct_def getattr_def)

lemma add_arc_Inr:
  assumes "add_arc w idx b up m = Inr m'"
  obtains d p where "get_disjunct m (''unit_disjunct_'' @ str_nat b) = Inr d"
    and "ports m (port_prefix w @ str_nat idx) \<noteq> None"
    and "up = Some p"
    and "d (arc_prefix w @ str_nat b) = None"
    and "m' = put_disjunct m (''unit_disjunct_'' @ str_nat b)
                (d(arc_prefix w @ str_nat b \<mapsto>
                   ArcC (make_arc w (SelectorPort (port_prefix w @ str_nat idx)) (ConnectionPoint p))))"
  using assms
  by (auto simp: add_arc_def add_component_def getattr_def
      split: sum.splits option.splits if_splits)

lemma edges_add_arc:
  assumes "add_arc w idx b up m = Inr m'"
  shows "\<exists>p. up = Some p \<and> edges m (''unit_disjunct_'' @ str_nat b, arc_prefix w @ str_nat b) = None \<and>
         edges m' = (edges m)((''unit_disjunct_'' @ str_nat b, arc_prefix w @ str_nat b) \<mapsto>
            make_arc w (SelectorPort (port_prefix w @ str_nat idx)) (ConnectionPoint p))"
proof -
  from assms obtain d p where
    d: "get_disjunct m (''unit_disjunct_'' @ str_nat b) = Inr d"
    and up: "up = Some p"
    and free: "d (arc_prefix w @ str_nat b) = None"
    and m': "m' = put_disjunct m (''unit_disjunct_'' @ str_nat b)
                (d(arc_prefix w @ str_nat b \<mapsto>
                   ArcC (make_arc w (SelectorPort (port_prefix w @ str_nat idx)) (ConnectionPoint p))))"
    by (rule add_arc_Inr)
  from d obtain sb where sb: "selector_block m = Some sb"
    by (auto simp: get_disjunct_Inr)
  have "edges m (''unit_disjunct_'' @ str_nat b, arc_prefix w @ str_nat b) = None"
    using d free by (simp add: edges_def)
  moreover have "edges m' = (edges m)((''unit_disjunct_'' @ str_nat b, arc_prefix w @ str_nat b) \<mapsto>
            make_arc w (SelectorPort (port_prefix w @ str_nat idx)) (ConnectionPoint p))"
    unfolding m' using d
    by (auto simp: edges_def fun_eq_iff get_put_disjunct [OF sb])
  ultimately show ?thesis using up by blast
qed

lemma created_trans:
  assumes "edges m \<subseteq>\<^sub>m edges m1" "edges m1 \<subseteq>\<^sub>m edges m2"
  shows "created m m2 = created m m1 \<union> created m1 m2" "created m m1 \<inter> created m1 m2 = {}"
  using assms [THEN map_le_implies_dom_le] by (auto simp: created_def)

lemma add_arc_created:
  assumes "add_arc w idx b up m = Inr m'"
  shows "edges m \<subseteq>\<^sub>m edges m'"
    and "created m m' = {(''unit_disjunct_'' @ str_nat b, arc_prefix w @ str_nat b)}"
  using edges_add_arc [OF assms] by (auto simp: created_def map_le_def domIff)

lemma fan_out_edges:
  "fan_out w idx c ps m = Inr m' \<Longrightarrow>
   edges m \<subseteq>\<^sub>m edges m' \<and>
   created m m' = (\<lambda>i. (''unit_disjunct_'' @ str_nat (c + i), arc_prefix w @ str_nat (c + i))) ` {..<length ps} \<and>
   (\<forall>i<length ps. edges m' (''unit_disjunct_'' @ str_nat (c + i), arc_prefix w @ str_nat (c + i)) =
       Some (make_arc w (SelectorPort (port_prefix w @ str_nat idx)) (ConnectionPoint (ps ! i))))"
proof (induction ps arbitrary: c m)
  case Nil
  then show ?case by (simp add: created_def)
next
  case (Cons p ps)
  let ?pos = "\<lambda>j. (''unit_disjunct_'' @ str_nat j, arc_prefix w @ str_nat j)"
  let ?new = "\<lambda>q. make_arc w (SelectorPort (port_prefix w @ str_nat idx)) (ConnectionPoint q)"
  from Cons.prems obtain m1 where
    a: "add_arc w idx c (Some p) m = Inr m1" and f: "fan_out w idx (c + 1) ps m1 = Inr m'"
    by (auto split: sum.splits)
  from edges_add_arc [OF a] have e1: "edges m1 = (edges m)(?pos c \<mapsto> ?new p)" by simp
  note le1 = add_arc_created(1) [OF a] and c1 = add_arc_created(2) [OF a]
  from Cons.IH [OF f] have le2: "edges m1 \<subseteq>\<^sub>m edges m'"
    and c2: "created m1 m' = (\<lambda>i. ?pos (c + 1 + i)) ` {..<length ps}"
    and l2: "\<forall>i<length ps. edges m' (?pos (c + 1 + i)) = Some (?new (ps ! i))"
    by auto
  have "edges m \<subseteq>\<^sub>m edges m'" using le1 le2 by (rule map_le_trans)
  moreover have "created m m' = (\<lambda>i. ?pos (c + i)) ` {..<length (p # ps)}"
  proof -
    have "{..<length (p # ps)} = insert 0 (Suc ` {..<length ps})"
      by (auto simp: image_iff less_Suc_eq_0_disj)
    then have "(\<lambda>i. ?pos (c + i)) ` {..<length (p # ps)} =
               insert (?pos c) ((\<lambda>i. ?pos (c + 1 + i)) ` {..<length ps})"
      by (simp add: image_image)
    with created_trans(1) [OF le1 le2] c1 c2 show ?thesis by simp
  qed
  moreover have "edges m' (?pos (c + i)) = Some (?new ((p # ps) ! i))" if "i < length (p # ps)" for i
  proof (cases i)
    case 0
    have "edges m1 (?pos c) = Some (?new p)" by (simp add: e1)
    with le2 have "edges m' (?pos c) = Some (?new p)"
      by (auto simp: map_le_def domIff dest!: bspec [where x="?pos c"])
    with 0 show ?thesis by simp
  next
    case (Suc j)
    with that l2 show ?thesis by simp
  qed
  ultimately show ?case by blast
qed

lemma wire_index_edges:
  assumes "wire_index w (idx, ps) m = Inr m'"
  shows "edges m \<subseteq>\<^sub>m edges m'"
    and "finite (created m m')" and "card (created m m') = length ps"
    and "length ps = 1 \<Longrightarrow>
           edges m' (''unit_disjunct_'' @ str_nat idx, arc_prefix w @ str_nat idx) =
             Some (make_arc w (SelectorPort (port_prefix w @ str_nat idx)) (ConnectionPoint (ps ! 0)))"
    and "1 < length ps \<Longrightarrow> i < length ps \<Longrightarrow>
           edges m' (''unit_disjunct_'' @ str_nat (i + 1), arc_prefix w @ str_nat (i + 1)) =
             Some (make_arc w (SelectorPort (port_prefix w @ str_nat idx)) (ConnectionPoint (ps ! i)))"
proof -
  show "edges m \<subseteq>\<^sub>m edges m'"
    using assms
    by (auto simp: wire_index_def split: if_splits dest: fan_out_edges add_arc_created(1))
  have c: "finite (created m m') \<and> card (created m m') = length ps"
  proof (cases "1 < length ps")
    case True
    with assms have "fan_out w idx 1 ps m = Inr m'" by (simp add: wire_index_def)
    from fan_out_edges [OF this]
    have "created m m' = (\<lambda>i. (''unit_disjunct_'' @ str_nat (1 + i), arc_prefix w @ str_nat (1 + i))) ` {..<length ps}"
      by simp
    moreover have "inj_on (\<lambda>i. (''unit_disjunct_'' @ str_nat (1 + i), arc_prefix w @ str_nat (1 + i))) {..<length ps}"
      by (auto simp: inj_on_def)
    ultimately show ?thesis by (simp add: card_image)
  next
    case False
    with assms have a: "add_arc w idx idx (first_elem ps) m = Inr m'" by (simp add: wire_index_def)
    from edges_add_arc [OF a] have "ps \<noteq> []" by (auto simp: first_elem_def)
    with False have "length ps = 1" by (cases ps) auto
    with add_arc_created(2) [OF a] show ?thesis by simp
  qed
  then show "finite (created m m')" "card (created m m') = length ps" by simp_all
  show "edges m' (''unit_disjunct_'' @ str_nat idx, arc_prefix w @ str_nat idx) =
             Some (make_arc w (SelectorPort (port_prefix w @ str_nat idx)) (ConnectionPoint (ps ! 0)))"
    if "length ps = 1"
  proof -
    from that assms have a: "add_arc w idx idx (first_elem ps) m = Inr m'" by (simp add: wire_index_def)
    from that have "first_elem ps = Some (ps ! 0)" by (cases ps) (auto simp: first_elem_def)
    with edges_add_arc [OF a] show ?thesis by auto
  qed
  show "edges m' (''unit_disjunct_'' @ str_nat (i + 1), arc_prefix w @ str_nat (i + 1)) =
             Some (make_arc w (SelectorPort (port_prefix w @ str_nat idx)) (ConnectionPoint (ps ! i)))"
    if "1 < length ps" "i < length ps"
  proof -
    from that assms have "fan_out w idx 1 ps m = Inr m'" by (simp add: wire_index_def)
    from fan_out_edges [OF this] that(2) show ?thesis by (simp add: add.commute)
  qed
qed

lemma wire_items_edges:
  "wire_items w items m = Inr m' \<Longrightarrow>
   edges m \<subseteq>\<^sub>m edges m' \<and> finite (created m m') \<and>
   card (created m m') = (\<Sum>(idx, ps)\<leftarrow>items. length ps) \<and>
   (\<forall>(idx, ps)\<in>set items.
      (length ps = 1 \<longrightarrow>
         edges m' (''unit_disjunct_'' @ str_nat idx, arc_prefix w @ str_nat idx) =
           Some (make_arc w (SelectorPort (port_prefix w @ str_nat idx)) (ConnectionPoint (ps ! 0)))) \<and>
      (1 < length ps \<longrightarrow>
         (\<forall>i<length ps.
            edges m' (''unit_disjunct_'' @ str_nat (i + 1), arc_prefix w @ str_nat (i + 1)) =
              Some (make_arc w (SelectorPort (port_prefix w @ str_nat idx)) (ConnectionPoint (ps ! i))))))"
proof (induction items arbitrary: m)
  case Nil
  then show ?case by (simp add: created_def)
next
  case (Cons item items)
  obtain idx ps where item: "item = (idx, ps)" by (cases item)
  from Cons.prems item obtain m1 where
    s: "wire_index w (idx, ps) m = Inr m1" and r: "wire_items w items m1 = Inr m'"
    by (auto split: sum.splits)
  note h = wire_index_edges [OF s]
  from Cons.IH [OF r] have le2: "edges m1 \<subseteq>\<^sub>m edges m'" and f2: "finite (created m1 m')"
    and c2: "card (created m1 m') = (\<Sum>(idx, ps)\<leftarrow>items. length ps)"
    and rest: "\<forall>(idx, ps)\<in>set items.
      (length ps = 1 \<longrightarrow>
         edges m' (''unit_disjunct_'' @ str_nat idx, arc_prefix w @ str_nat idx) =
           Some (make_arc w (SelectorPort (port_prefix w @ str_nat idx)) (ConnectionPoint (ps ! 0)))) \<and>
      (1 < length ps \<longrightarrow>
         (\<forall>i<length ps.
            edges m' (''unit_disjunct_'' @ str_nat (i + 1), arc_prefix w @ str_nat (i + 1)) =
              Some (make_arc w (SelectorPort (port_prefix w @ str_nat idx)) (ConnectionPoint (ps ! i)))))"
    by blast+
  have keep: "edges m' x = Some a" if "edges m1 x = Some a" for x a
    using le2 that by (auto simp: map_le_def domIff dest!: bspec [where x=x])
  have le: "edges m \<subseteq>\<^sub>m edges m'" using h(1) le2 by (rule map_le_trans)
  have fin: "finite (created m m')"
    using created_trans(1) [OF h(1) le2] h(2) f2 by simp
  have card: "card (created m m') = (\<Sum>(idx, ps)\<leftarrow>item # items. length ps)"
    using created_trans [OF h(1) le2] h(2,3) f2 c2 item by (simp add: card_Un_disjoint)
  have first: "(length ps = 1 \<longrightarrow>
         edges m' (''unit_disjunct_'' @ str_nat idx, arc_prefix w @ str_nat idx) =
           Some (make_arc w (SelectorPort (port_prefix w @ str_nat idx)) (ConnectionPoint (ps ! 0)))) \<and>
      (1 < length ps \<longrightarrow>
         (\<forall>i<length ps.
            edges m' (''unit_disjunct_'' @ str_nat (i + 1), arc_prefix w @ str_nat (i + 1)) =
              Some (make_arc w (SelectorPort (port_prefix w @ str_nat idx)) (ConnectionPoint (ps ! i)))))"
    using h(4) h(5) keep by blast
  from le fin card first rest item show ?case by simp
qed

lemmas example_eval =
  example_config_def example_config_single_def example_model_def example_ready_def
  example_units_def RangeSet_def set_disjunct_def
  getattr_def str_nat.simps digit_def get_disjunct_def
  add_component_def Disjunct_def put_disjunct_def del_component_def
  reserved_def arc_name_def example_reserved_def
  arc_selector_inlet_to_unit_def
  arc_unit_outlet_to_selector_def wire_index_def add_arc_def inlet_wiring_def
  outlet_wiring_def first_elem_def




section \<open>What the wiring rejects\<close>

lemma get_disjunct_Inl: "get_disjunct m n = Inl e \<Longrightarrow> e = AttributeError"
  by (auto simp: get_disjunct_def getattr_def split: option.splits sb_component.splits)

lemma not_reserved_arc_name: "arc_name n \<Longrightarrow> \<not> reserved table n"
  by (simp add: reserved_def)

lemma arc_name_inlet_wiring [simp]: "arc_name (arc_prefix inlet_wiring @ s)"
  by (simp add: arc_name_def inlet_wiring_def)

lemma arc_name_outlet_wiring [simp]: "arc_name (arc_prefix outlet_wiring @ s)"
  by (simp add: arc_name_def outlet_wiring_def)

lemma add_arc_Inl:
  assumes "add_arc w idx b up m = Inl (e, mf)"
  shows "mf = m"
    and "arc_name (arc_prefix w @ str_nat b) \<Longrightarrow>
         e = AttributeError \<or> e = IndexError \<and> up = None \<or> e = RuntimeError"
  using assms
  by (auto simp: add_arc_def add_component_def getattr_def
      split: sum.splits option.splits if_splits dest: get_disjunct_Inl not_reserved_arc_name)

lemma add_arc_no_branch:
  assumes "\<nexists>d. get_disjunct m (''unit_disjunct_'' @ str_nat b) = Inr d"
  shows "add_arc w idx b up m = Inl (AttributeError, m)"
proof -
  from assms obtain e where "get_disjunct m (''unit_disjunct_'' @ str_nat b) = Inl e"
    by (cases "get_disjunct m (''unit_disjunct_'' @ str_nat b)") auto
  then show ?thesis by (auto simp: add_arc_def dest: get_disjunct_Inl)
qed

lemma add_arc_keeps_branches:
  assumes "add_arc w idx b up m = Inr m'"
  shows "(\<exists>d. get_disjunct m' n = Inr d) \<longleftrightarrow> (\<exists>d. get_disjunct m n = Inr d)"
proof -
  from assms obtain d d' where d: "get_disjunct m (''unit_disjunct_'' @ str_nat b) = Inr d"
    and m': "m' = put_disjunct m (''unit_disjunct_'' @ str_nat b) d'"
    by (auto elim!: add_arc_Inr)
  from d obtain sb where "selector_block m = Some sb" by (auto simp: get_disjunct_Inr)
  from get_put_disjunct [OF this] d show ?thesis by (auto simp: m')
qed

lemma fan_out_Inl:
  "fan_out w idx c ps m = Inl (e, mf) \<Longrightarrow> (\<And>s. arc_name (arc_prefix w @ s)) \<Longrightarrow>
   e = AttributeError \<or> e = RuntimeError"
  by (induction ps arbitrary: c m) (auto split: sum.splits dest: add_arc_Inl(2))

lemma wire_index_Inl:
  "wire_index w item m = Inl (e, mf) \<Longrightarrow> (\<And>s. arc_name (arc_prefix w @ s)) \<Longrightarrow>
   e = AttributeError \<or> e = IndexError \<or> e = RuntimeError"
  by (auto simp: wire_index_def split: prod.splits if_splits dest: fan_out_Inl add_arc_Inl(2))

lemma wire_items_Inl:
  "wire_items w items m = Inl (e, mf) \<Longrightarrow> (\<And>s. arc_name (arc_prefix w @ s)) \<Longrightarrow>
   e = AttributeError \<or> e = IndexError \<or> e = RuntimeError"
  by (induction items arbitrary: m) (auto split: sum.splits dest: wire_index_Inl)

lemma fan_out_too_long:
  assumes "\<And>j. (\<exists>d. get_disjunct m (''unit_disjunct_'' @ str_nat j) = Inr d) \<longleftrightarrow> 1 \<le> j \<and> j \<le> N"
    and "1 \<le> c" and "c \<le> Suc N" and "Suc N < c + length ps"
    and "\<And>s. arc_name (arc_prefix w @ s)"
  shows "\<exists>e mf. fan_out w idx c ps m = Inl (e, mf) \<and> (e = AttributeError \<or> e = RuntimeError)"
  using assms
proof (induction ps arbitrary: c m)
  case Nil
  then show ?case by simp
next
  case (Cons p ps)
  show ?case
  proof (cases "add_arc w idx c (Some p) m")
    case (Inl x)
    then show ?thesis using Cons.prems(5) by (cases x) (auto dest: add_arc_Inl(2))
  next
    case (Inr m1)
    from add_arc_Inr [OF Inr] Cons.prems(1) [of c] have "c \<le> N" by metis
    have "\<exists>e mf. fan_out w idx (Suc c) ps m1 = Inl (e, mf) \<and> (e = AttributeError \<or> e = RuntimeError)"
    proof (rule Cons.IH)
      show "(\<exists>d. get_disjunct m1 (''unit_disjunct_'' @ str_nat j) = Inr d) = (1 \<le> j \<and> j \<le> N)" for j
        using add_arc_keeps_branches [OF Inr] Cons.prems(1) by simp
      show "1 \<le> Suc c" by simp
      show "Suc c \<le> Suc N" using \<open>c \<le> N\<close> by simp
      show "Suc N < Suc c + length ps" using Cons.prems(4) by simp
      show "arc_name (arc_prefix w @ s)" for s by (rule Cons.prems(5))
    qed
    with Inr show ?thesis by simp
  qed
qed

text \<open>What it takes for a list to be wired from branch \<open>c\<close> on.\<close>

lemma fan_out_succeeds:
  assumes "ports m (port_prefix w @ str_nat idx) \<noteq> None"
    and "\<And>i. i < length ps \<Longrightarrow>
           \<exists>d. get_disjunct m (''unit_disjunct_'' @ str_nat (c + i)) = Inr d \<and>
               d (arc_prefix w @ str_nat (c + i)) = None"
  shows "\<exists>m'. fan_out w idx c ps m = Inr m'"
  using assms
proof (induction ps arbitrary: c m)
  case Nil
  then show ?case by simp
next
  case (Cons p ps)
  let ?D = "\<lambda>j. ''unit_disjunct_'' @ str_nat j"
  from Cons.prems(2) [of 0] obtain d where
    d: "get_disjunct m (?D c) = Inr d" "d (arc_prefix w @ str_nat c) = None" by auto
  from d(1) obtain sb where sb: "selector_block m = Some sb" by (auto simp: get_disjunct_Inr)
  define m1 where "m1 = put_disjunct m (?D c)
     (d(arc_prefix w @ str_nat c \<mapsto>
        ArcC (make_arc w (SelectorPort (port_prefix w @ str_nat idx)) (ConnectionPoint p))))"
  from d Cons.prems(1) have a: "add_arc w idx c (Some p) m = Inr m1"
    by (auto simp: add_arc_def add_component_def getattr_def m1_def)
  have "\<exists>m'. fan_out w idx (Suc c) ps m1 = Inr m'"
  proof (rule Cons.IH)
    show "ports m1 (port_prefix w @ str_nat idx) \<noteq> None"
      using Cons.prems(1) by (simp add: m1_def put_disjunct_def)
    show "\<exists>d. get_disjunct m1 (?D (Suc c + i)) = Inr d \<and> d (arc_prefix w @ str_nat (Suc c + i)) = None"
      if "i < length ps" for i
      using Cons.prems(2) [of "Suc i"] that
      by (simp add: m1_def get_put_disjunct [OF sb])
  qed
  with a show ?case by simp
qed

lemma wire_items_append:
  "wire_items w (xs @ ys) m =
     (case wire_items w xs m of Inl x \<Rightarrow> Inl x | Inr m1 \<Rightarrow> wire_items w ys m1)"
  by (induction xs arbitrary: m) (auto split: sum.splits)

lemma edges_Some:
  "edges m (b, n) = Some a \<longleftrightarrow> (\<exists>d. get_disjunct m b = Inr d \<and> d n = Some (ArcC a))"
  by (auto simp: edges_def split: sum.splits option.splits component.splits)

lemma wire_items_keeps:
  "wire_items w items m = Inr m' \<Longrightarrow> edges m x = Some a \<Longrightarrow> edges m' x = Some a"
  using wire_items_edges [of w items m m']
  by (auto simp: map_le_def domIff dest!: bspec [where x=x])

lemma second_fan_out_fails:
  assumes reach: "wire_items w (pre @ (k1, L1) # mid) m = Inr m1"
    and L1: "1 < length L1" and L2: "1 < length L2"
    and w: "\<And>s. arc_name (arc_prefix w @ s)"
  shows "wire_index w (k2, L2) m1 =
           Inl (if ports m1 (port_prefix w @ str_nat k2) = None then AttributeError else RuntimeError, m1)"
proof -
  from reach obtain ma mb where
    "wire_items w pre m = Inr ma" and b: "wire_index w (k1, L1) ma = Inr mb"
    and c: "wire_items w mid mb = Inr m1"
    by (auto simp: wire_items_append split: sum.splits)
  have "0 < length L1" using L1 by (cases L1) simp_all
  from wire_index_edges(5) [OF b L1 this]
  have "\<exists>a. edges mb (''unit_disjunct_'' @ str_nat (Suc 0), arc_prefix w @ str_nat (Suc 0)) = Some a"
    by simp
  then obtain a where "edges mb (''unit_disjunct_'' @ str_nat (Suc 0), arc_prefix w @ str_nat (Suc 0)) = Some a" ..
  from wire_items_keeps [OF c this] obtain d where
    d: "get_disjunct m1 (''unit_disjunct_'' @ str_nat (Suc 0)) = Inr d"
      "d (arc_prefix w @ str_nat (Suc 0)) = Some (ArcC a)"
    unfolding edges_Some by blast
  from L2 obtain p ps where "L2 = p # ps" by (cases L2) auto
  with L2 d not_reserved_arc_name [OF w] show ?thesis
    by (auto simp: wire_index_def add_arc_def getattr_def add_component_def)
qed

lemma inlet_items_Cons:
  "unit_disjunct_inlet cfg = item # rest \<Longrightarrow>
   arc_selector_inlet_to_unit cfg m =
     (case wire_index inlet_wiring item m of
        Inl x \<Rightarrow> Inl x
      | Inr m1 \<Rightarrow> wire_items inlet_wiring rest m1)"
  by (simp add: arc_selector_inlet_to_unit_def)

text \<open>
  With two branches, a list of length three is wired into both branches and then fails on the
  missing third with \<open>AttributeError\<close>; a list of length one at index three fails with
  \<open>AttributeError\<close> too.
\<close>

theorem wiring_length_errors_counterexample:
  "(case arc_selector_inlet_to_unit example_config_long example_ready of
      Inl (e, mf) \<Rightarrow>
        e = AttributeError \<and> edges mf (''unit_disjunct_1'', ''inlet_to_unit_arc_1'') \<noteq> None
    | Inr _ \<Rightarrow> False) \<and>
   (case arc_selector_inlet_to_unit example_config_far example_ready of
      Inl (e, mf) \<Rightarrow> e = AttributeError
    | Inr _ \<Rightarrow> False)"
  by (simp add: example_config_long_def example_config_far_def example_eval edges_def)

text \<open>
  C4, as the code has it. The wiring never raises \<open>ConfigurationError\<close> and never compares the length of a
  list with the number \<open>N\<close> of branches. With branches \<open>1..N\<close> and \<open>k\<close> the first index:
  an empty list fails before anything is added, with \<open>IndexError\<close> when branch \<open>k\<close> and port
  \<open>inlet_k\<close> exist and \<open>AttributeError\<close> otherwise; a list of length 1 at an index outside
  \<open>1..N\<close> fails with \<open>AttributeError\<close> before anything is added; a list longer than 1 and
  longer than \<open>N\<close> fails with \<open>AttributeError\<close> or \<open>RuntimeError\<close>; a list of length at most \<open>N\<close>
  and longer than 1 is wired whenever port \<open>inlet_k\<close> exists and the edge names are free.
\<close>

theorem wiring_length_errors:
  assumes branches:
      "\<And>j. (\<exists>d. get_disjunct m (''unit_disjunct_'' @ str_nat j) = Inr d) \<longleftrightarrow> 1 \<le> j \<and> j \<le> N"
    and first: "unit_disjunct_inlet cfg = (k, L) # rest"
  shows "(\<forall>e mf. arc_selector_inlet_to_unit cfg m = Inl (e, mf) \<longrightarrow> e \<noteq> ConfigurationError) \<and>
    (L = [] \<longrightarrow>
       arc_selector_inlet_to_unit cfg m =
         Inl (if 1 \<le> k \<and> k \<le> N \<and> ports m (''inlet_'' @ str_nat k) \<noteq> None
              then IndexError else AttributeError, m)) \<and>
    (length L = 1 \<and> \<not> (1 \<le> k \<and> k \<le> N) \<longrightarrow>
       arc_selector_inlet_to_unit cfg m = Inl (AttributeError, m)) \<and>
    (1 < length L \<and> N < length L \<longrightarrow>
       (\<exists>e mf. arc_selector_inlet_to_unit cfg m = Inl (e, mf) \<and>
                (e = AttributeError \<or> e = RuntimeError))) \<and>
    (1 < length L \<and> length L \<le> N \<and> ports m (''inlet_'' @ str_nat k) \<noteq> None \<and>
     (\<forall>i<length L. \<forall>d. get_disjunct m (''unit_disjunct_'' @ str_nat (i + 1)) = Inr d \<longrightarrow>
                         d (''inlet_to_unit_arc_'' @ str_nat (i + 1)) = None) \<longrightarrow>
       (\<exists>m1. arc_selector_inlet_to_unit (cfg\<lparr>unit_disjunct_inlet := [(k, L)]\<rparr>) m = Inr m1))"
proof (intro conjI allI impI)
  fix e mf assume "arc_selector_inlet_to_unit cfg m = Inl (e, mf)"
  then show "e \<noteq> ConfigurationError"
    by (auto simp: arc_selector_inlet_to_unit_def dest: wire_items_Inl)
next
  assume "L = []"
  show "arc_selector_inlet_to_unit cfg m =
         Inl (if 1 \<le> k \<and> k \<le> N \<and> ports m (''inlet_'' @ str_nat k) \<noteq> None
              then IndexError else AttributeError, m)"
  proof (cases "1 \<le> k \<and> k \<le> N")
    case True
    with branches [of k] obtain d where "get_disjunct m (''unit_disjunct_'' @ str_nat k) = Inr d"
      by auto
    with True \<open>L = []\<close> show ?thesis
      by (auto simp: inlet_items_Cons [OF first] wire_index_def add_arc_def first_elem_def
          getattr_def inlet_wiring_def)
  next
    case False
    with branches [of k] have "\<nexists>d. get_disjunct m (''unit_disjunct_'' @ str_nat k) = Inr d"
      by simp
    from add_arc_no_branch [OF this] False \<open>L = []\<close> show ?thesis
      by (auto simp: inlet_items_Cons [OF first] wire_index_def)
  qed
next
  assume a: "length L = 1 \<and> \<not> (1 \<le> k \<and> k \<le> N)"
  with branches [of k] have "\<nexists>d. get_disjunct m (''unit_disjunct_'' @ str_nat k) = Inr d"
    by simp
  from add_arc_no_branch [OF this] a
  show "arc_selector_inlet_to_unit cfg m = Inl (AttributeError, m)"
    by (simp add: inlet_items_Cons [OF first] wire_index_def)
next
  assume a: "1 < length L \<and> N < length L"
  have "\<exists>e mf. fan_out inlet_wiring k 1 L m = Inl (e, mf) \<and> (e = AttributeError \<or> e = RuntimeError)"
    using branches a by (intro fan_out_too_long [where N=N]) auto
  with a show "\<exists>e mf. arc_selector_inlet_to_unit cfg m = Inl (e, mf) \<and>
                (e = AttributeError \<or> e = RuntimeError)"
    by (auto simp: inlet_items_Cons [OF first] wire_index_def)
next
  assume a: "1 < length L \<and> length L \<le> N \<and> ports m (''inlet_'' @ str_nat k) \<noteq> None \<and>
     (\<forall>i<length L. \<forall>d. get_disjunct m (''unit_disjunct_'' @ str_nat (i + 1)) = Inr d \<longrightarrow>
                         d (''inlet_to_unit_arc_'' @ str_nat (i + 1)) = None)"
  have "\<exists>m'. fan_out inlet_wiring k 1 L m = Inr m'"
  proof (rule fan_out_succeeds)
    show "ports m (port_prefix inlet_wiring @ str_nat k) \<noteq> None"
      using a by (simp add: inlet_wiring_def)
    show "\<exists>d. get_disjunct m (''unit_disjunct_'' @ str_nat (1 + i)) = Inr d \<and>
              d (arc_prefix inlet_wiring @ str_nat (1 + i)) = None" if "i < length L" for i
    proof -
      from that a have "1 \<le> i + 1 \<and> i + 1 \<le> N" by simp
      with branches [of "i + 1"] obtain d where
        "get_disjunct m (''unit_disjunct_'' @ str_nat (i + 1)) = Inr d" by blast
      with a that show ?thesis by (auto simp: inlet_wiring_def)
    qed
  qed
  with a show "\<exists>m1. arc_selector_inlet_to_unit (cfg\<lparr>unit_disjunct_inlet := [(k, L)]\<rparr>) m = Inr m1"
    by (auto simp: arc_selector_inlet_to_unit_def wire_index_def)
qed

lemma str_nat_digits:
  "str_nat j = ''1'' \<longleftrightarrow> j = 1" "str_nat j = ''2'' \<longleftrightarrow> j = 2"
proof -
  have "str_nat 1 = ''1''" "str_nat 2 = ''2''"
    by (simp_all add: str_nat.simps digit_def)
  then show "str_nat j = ''1'' \<longleftrightarrow> j = 1" "str_nat j = ''2'' \<longleftrightarrow> j = 2"
    by (metis str_nat_eq_iff)+
qed

lemma example_ready_branches:
  "(\<exists>d. get_disjunct example_ready (''unit_disjunct_'' @ str_nat j) = Inr d) \<longleftrightarrow> 1 \<le> j \<and> j \<le> 2"
  by (auto simp: get_disjunct_Inr example_ready_def str_nat_digits)

theorem wiring_length_errors_witness:
  "arc_selector_inlet_to_unit example_config_empty example_ready = Inl (IndexError, example_ready) \<and>
   arc_selector_inlet_to_unit example_config_far example_ready = Inl (AttributeError, example_ready) \<and>
   (\<exists>e mf. arc_selector_inlet_to_unit example_config_long example_ready = Inl (e, mf) \<and>
      (e = AttributeError \<or> e = RuntimeError)) \<and>
   (\<exists>m1. arc_selector_inlet_to_unit example_config example_ready = Inr m1)"
proof -
  have p: "ports example_ready (''inlet_'' @ str_nat 1) \<noteq> None"
    by (simp add: example_ready_def str_nat.simps digit_def)
  have free: "\<forall>i<length [''R1.inlet'', ''R2.inlet''].
           \<forall>d. get_disjunct example_ready (''unit_disjunct_'' @ str_nat (i + 1)) = Inr d \<longrightarrow>
               d (''inlet_to_unit_arc_'' @ str_nat (i + 1)) = None"
    by (auto simp: less_Suc_eq example_ready_def get_disjunct_Inr Disjunct_def reserved_def
        arc_name_def str_nat.simps digit_def)
  have c: "example_config\<lparr>unit_disjunct_inlet := [(1, [''R1.inlet'', ''R2.inlet''])]\<rparr> = example_config"
    by (simp add: example_config_def)
  from wiring_length_errors [of example_ready 2 example_config_empty 1 "[]" "[]", OF example_ready_branches] p
  have 1: "arc_selector_inlet_to_unit example_config_empty example_ready = Inl (IndexError, example_ready)"
    by (simp add: example_config_empty_def example_config_def)
  from wiring_length_errors [of example_ready 2 example_config_far 3 "[''R3.inlet'']" "[]",
      OF example_ready_branches]
  have 2: "arc_selector_inlet_to_unit example_config_far example_ready = Inl (AttributeError, example_ready)"
    by (simp add: example_config_far_def example_config_def)
  from wiring_length_errors [of example_ready 2 example_config_long 1
      "[''R1.inlet'', ''R2.inlet'', ''R3.inlet'']" "[]", OF example_ready_branches]
  have 3: "\<exists>e mf. arc_selector_inlet_to_unit example_config_long example_ready = Inl (e, mf) \<and>
      (e = AttributeError \<or> e = RuntimeError)"
    by (simp add: example_config_long_def example_config_def)
  from wiring_length_errors [of example_ready 2 example_config 1
      "[''R1.inlet'', ''R2.inlet'']" "[]", OF example_ready_branches] p free
  have 4: "\<exists>m1. arc_selector_inlet_to_unit example_config example_ready = Inr m1"
    unfolding c by (simp add: example_config_def)
  from 1 2 3 4 show ?thesis by blast
qed

lemma wire_items_two_fan_out:
  assumes "items = pre @ (k1, L1) # mid @ (k2, L2) # post" "1 < length L1" "1 < length L2"
    and w: "\<And>s. arc_name (arc_prefix w @ s)"
  shows "\<exists>x. wire_items w items m = Inl x"
proof (cases "wire_items w (pre @ (k1, L1) # mid) m")
  case (Inl x)
  with assms(1) show ?thesis
    using wire_items_append [of w "pre @ (k1, L1) # mid" "(k2, L2) # post" m] by simp
next
  case (Inr m1)
  from second_fan_out_fails [OF Inr assms(2,3) w, of k2] Inr assms(1) show ?thesis
    using wire_items_append [of w "pre @ (k1, L1) # mid" "(k2, L2) # post" m] by simp
qed

lemma build_Inl_inlet:
  assumes "\<And>m. \<exists>x. arc_selector_inlet_to_unit cfg m = Inl x"
  shows "\<exists>x. build cfg m = Inl x"
proof -
  have "build cfg m \<noteq> Inr m'" for m'
  proof
    assume "build cfg m = Inr m'"
    then obtain m3 m4 where "arc_selector_inlet_to_unit cfg m3 = Inr m4"
      by (auto simp: build_def split: sum.splits)
    with assms [of m3] show False by auto
  qed
  then show ?thesis by (cases "build cfg m") auto
qed

lemma build_Inl_outlet:
  assumes "\<And>m. \<exists>x. arc_unit_outlet_to_selector cfg m = Inl x"
  shows "\<exists>x. build cfg m = Inl x"
proof -
  have "build cfg m \<noteq> Inr m'" for m'
  proof
    assume "build cfg m = Inr m'"
    then obtain m4 m5 where "arc_unit_outlet_to_selector cfg m4 = Inr m5"
      by (auto simp: build_def split: sum.splits)
    with assms [of m4] show False by auto
  qed
  then show ?thesis by (cases "build cfg m") auto
qed

lemma ports_add_arc: "add_arc w idx b up m = Inr m' \<Longrightarrow> ports m' = ports m"
  by (auto elim!: add_arc_Inr simp: put_disjunct_def)

lemma ports_fan_out: "fan_out w idx c ps m = Inr m' \<Longrightarrow> ports m' = ports m"
  by (induction ps arbitrary: c m) (auto split: sum.splits dest: ports_add_arc)

lemma ports_wire_items: "wire_items w items m = Inr m' \<Longrightarrow> ports m' = ports m"
proof (induction items arbitrary: m)
  case Nil
  then show ?case by simp
next
  case (Cons item items)
  then show ?case
    by (auto simp: wire_index_def split: sum.splits prod.splits if_splits
        dest!: ports_fan_out ports_add_arc)
qed

section \<open>Build: candidates, rebuilding and the unused option\<close>

lemma create_disjuncts_Inl: "create_disjuncts idxs m = Inl (e, mf) \<Longrightarrow> e = AttributeError"
  by (induction idxs arbitrary: m) (auto split: option.splits)

lemma disjunct_exprs_Inl: "disjunct_exprs idxs sb = Inl e \<Longrightarrow> e = AttributeError"
  by (induction idxs) (auto simp: getattr_def split: option.splits sum.splits)

lemma create_unit_disjunct_Inl: "create_unit_disjunct cfg m = Inl (e, mf) \<Longrightarrow> e = AttributeError"
  by (auto simp: create_unit_disjunct_def split: sum.splits option.splits
      dest: create_disjuncts_Inl disjunct_exprs_Inl)

lemma del_from_parent_Inl: "del_from_parent u m = Inl (e, mf) \<Longrightarrow> e = AttributeError"
  by (auto simp: del_from_parent_def split: owner.splits sum.splits)

lemma add_units_Inl:
  "add_units i us m = Inl (e, mf) \<Longrightarrow>
   e = AttributeError \<or> e = RuntimeError \<or> e = ValueError"
proof (induction us arbitrary: i m)
  case Nil
  then show ?case by simp
next
  case (Cons u us)
  then show ?case
    by (auto simp: add_component_def split: sum.splits option.splits if_splits
        dest: get_disjunct_Inl del_from_parent_Inl)
qed

lemma add_port_Inl: "add_port n b d m = Inl (e, mf) \<Longrightarrow> e = RuntimeError \<and> mf = m"
  by (auto simp: add_port_def add_component_def split: option.splits sum.splits)

lemma add_port_Inr:
  "add_port n b d m = Inr m' \<longleftrightarrow>
   ports m n = None \<and> m' = m\<lparr>ports := (ports m)(n \<mapsto> \<lparr>block = b, port_doc = d\<rparr>)\<rparr>"
  by (auto simp: add_port_def add_component_def split: option.splits sum.splits)

lemma mixed_state_block_fields:
  "unit_disjunct (cfg\<lparr>mixed_state_block := v\<rparr>) = unit_disjunct cfg"
  "unit_source (cfg\<lparr>mixed_state_block := v\<rparr>) = unit_source cfg"
  "unit_sink (cfg\<lparr>mixed_state_block := v\<rparr>) = unit_sink cfg"
  "unit_disjunct_inlet (cfg\<lparr>mixed_state_block := v\<rparr>) = unit_disjunct_inlet cfg"
  "unit_disjunct_outlet (cfg\<lparr>mixed_state_block := v\<rparr>) = unit_disjunct_outlet cfg"
  "construct_ports (cfg\<lparr>mixed_state_block := v\<rparr>) = construct_ports cfg"
  by simp_all

lemma mixed_state_block_lists:
  "create_inlet_list (cfg\<lparr>mixed_state_block := v\<rparr>) = create_inlet_list cfg"
  "create_outlet_list (cfg\<lparr>mixed_state_block := v\<rparr>) = create_outlet_list cfg"
  "add_port_objects (cfg\<lparr>mixed_state_block := v\<rparr>) = add_port_objects cfg"
  by (simp_all add: fun_eq_iff create_inlet_list_def create_outlet_list_def add_port_objects_def)

lemma mixed_state_block_ports:
  "build_ports (cfg\<lparr>mixed_state_block := v\<rparr>) = build_ports cfg"
  by (rule ext) (unfold build_ports_def mixed_state_block_fields mixed_state_block_lists, rule refl)

lemma mixed_state_block_stages:
  "create_unit_disjunct (cfg\<lparr>mixed_state_block := v\<rparr>) = create_unit_disjunct cfg"
  "add_units_to_disjunct (cfg\<lparr>mixed_state_block := v\<rparr>) = add_units_to_disjunct cfg"
  "arc_selector_inlet_to_unit (cfg\<lparr>mixed_state_block := v\<rparr>) = arc_selector_inlet_to_unit cfg"
  "arc_unit_outlet_to_selector (cfg\<lparr>mixed_state_block := v\<rparr>) = arc_unit_outlet_to_selector cfg"
  by (unfold create_unit_disjunct_def add_units_to_disjunct_def arc_selector_inlet_to_unit_def
        arc_unit_outlet_to_selector_def mixed_state_block_fields,
      (rule refl)+)

text \<open>
  C9. The value of \<open>mixed_state_block\<close> has no effect on \<open>build\<close>: whatever it is set to, the
  result of \<open>build\<close> on any model is the same, the returned structure or the error and the
  model the error leaves.
\<close>

theorem mixed_state_block_unused:
  "build (cfg\<lparr>mixed_state_block := v\<rparr>) m = build cfg m"
  unfolding build_def mixed_state_block_stages mixed_state_block_ports ..

lemma example_none_build: "\<exists>m'. build example_config_none example_model = Inr m'"
  by (simp add: build_def super_build_def new_selector_block_def create_unit_disjunct_def
      example_config_none_def example_eval add_units_to_disjunct_def
      build_ports_def create_inlet_list_def create_outlet_list_def add_port_state_block_def
      add_port_objects_def)

lemma build_one_of_N:
  assumes "build cfg m = Inr m'"
  shows "\<exists>sb. selector_block m' = Some sb \<and> one_of_N (length (unit_disjunct cfg)) sb"
proof -
  let ?N = "length (unit_disjunct cfg)"
  have "selector_block (new_selector_block m) = Some Map.empty"
    by (simp add: new_selector_block_def)
  from create_unit_disjunct_fresh [OF this, of cfg] obtain m1 sb where
    m1: "create_unit_disjunct cfg (new_selector_block m) = Inr m1" "selector_block m1 = Some sb"
      "one_of_N ?N sb"
    using one_of_N_fresh [of ?N] by auto
  from shape_build [OF assms] m1(1) have sh: "shape m' = shape m1" by auto
  with m1(2) obtain sb' where sb': "selector_block m' = Some sb'"
    by (auto simp: shape_def)
  with sh m1(2) have "map_option kind (sb' n) = map_option kind (sb n)" for n
    by (auto simp: shape_def fun_eq_iff)
  from one_of_N_cong [OF this m1(3)] sb' show ?thesis by blast
qed

lemma edges_cong: "selector_block m' = selector_block m \<Longrightarrow> edges m' = edges m"
  unfolding edges_def get_disjunct_def by simp

lemma edges_put_disjunct:
  "selector_block m = Some sb \<Longrightarrow>
   edges (put_disjunct m n d) (b, x) =
     (if b = n then (case d x of Some (ArcC a) \<Rightarrow> Some a | _ \<Rightarrow> None) else edges m (b, x))"
  by (simp add: edges_def get_put_disjunct)

lemma no_edges_cong: "selector_block m' = selector_block m \<Longrightarrow> no_edges m \<Longrightarrow> no_edges m'"
  unfolding no_edges_def by (drule edges_cong) simp

lemma no_edges_del_from_parent:
  assumes "del_from_parent u m = Inr m'" "no_edges m"
  shows "no_edges m'"
proof (cases "parent_block m (ident u)")
  case (Branch n)
  show ?thesis
  proof (cases "get_disjunct m n")
    case (Inl e)
    with Branch assms(1) have "selector_block m' = selector_block m"
      by (auto simp: del_from_parent_def)
    then show ?thesis using assms(2) by (rule no_edges_cong)
  next
    case (Inr d)
    then obtain sb where sb: "selector_block m = Some sb" by (auto simp: get_disjunct_Inr)
    have nd: False if "d x = Some (ArcC a)" for x a
    proof -
      from that Inr have "edges m (n, x) = Some a" unfolding edges_Some by blast
      with assms(2) show False by (simp add: no_edges_def)
    qed
    have "edges (put_disjunct m n (del_component d (local_name u))) (b, x) = None" for b x
      using assms(2) nd
      by (auto simp: edges_put_disjunct [OF sb] del_component_def no_edges_def
          split: option.splits component.splits)
    then have "no_edges (put_disjunct m n (del_component d (local_name u)))"
      by (simp add: no_edges_def)
    moreover from Branch Inr assms(1)
    have "selector_block m' = selector_block (put_disjunct m n (del_component d (local_name u)))"
      by (auto simp: del_from_parent_def)
    ultimately show ?thesis by (rule no_edges_cong [rotated])
  qed
next
  case NoParent
  with assms(1) show ?thesis by (simp add: del_from_parent_def)
next
  case Flowsheet
  with assms(1) have "selector_block m' = selector_block m"
    by (auto simp: del_from_parent_def)
  then show ?thesis using assms(2) by (rule no_edges_cong)
next
  case Orphaned
  with assms(1) have "selector_block m' = selector_block m"
    by (auto simp: del_from_parent_def)
  then show ?thesis using assms(2) by (rule no_edges_cong)
qed

lemma no_edges_add_units: "add_units i us m = Inr m' \<Longrightarrow> no_edges m \<Longrightarrow> no_edges m'"
proof (induction us arbitrary: i m)
  case Nil
  then show ?case by simp
next
  case (Cons u us)
  let ?D = "''unit_disjunct_'' @ str_nat (i + 1)"
  from Cons.prems(1) obtain m1 d d' where
    del: "del_from_parent u m = Inr m1" and d: "get_disjunct m1 ?D = Inr d"
    and d': "d' = d(local_name u \<mapsto> UnitBlock u)"
    and rest: "add_units (i + 1) us
                 ((put_disjunct m1 ?D d')\<lparr>parent_block := (parent_block m1)(ident u := Branch ?D)\<rparr>) = Inr m'"
    by (auto simp: add_component_def split: sum.splits option.splits if_splits)
  have n1: "no_edges m1" using del Cons.prems(2) by (rule no_edges_del_from_parent)
  from d obtain sb where sb: "selector_block m1 = Some sb" by (auto simp: get_disjunct_Inr)
  have nd: False if "d x = Some (ArcC a)" for x a
  proof -
    from that d have "edges m1 (?D, x) = Some a" unfolding edges_Some by blast
    with n1 show False by (simp add: no_edges_def)
  qed
  have "edges (put_disjunct m1 ?D d') (b, x) = None" for b x
    using n1 nd by (auto simp: edges_put_disjunct [OF sb] d' no_edges_def
        split: option.splits component.splits)
  then have "no_edges (put_disjunct m1 ?D d')" by (simp add: no_edges_def)
  then have "no_edges ((put_disjunct m1 ?D d')\<lparr>parent_block := (parent_block m1)(ident u := Branch ?D)\<rparr>)"
    by (rule no_edges_cong [rotated]) simp
  from Cons.IH [OF rest this] show ?case .
qed

lemma no_edges_create:
  assumes "selector_block m = Some Map.empty" "create_unit_disjunct cfg m = Inr m1"
  shows "no_edges m1"
  using create_unit_disjunct_fresh [OF assms(1), of cfg] assms(2)
  by (auto simp: no_edges_def edges_def get_disjunct_def getattr_def Disjunct_def
      split: sum.splits option.splits)

lemma dom_edges_expand [simp]: "dom (edges (expand_arcs m)) = dom (edges m)"
proof -
  have "edges (expand_arcs m) x = map_option (\<lambda>a. a\<lparr>expanded := True\<rparr>) (edges m x)" for x
    by (cases x; cases "selector_block m")
      (auto simp: edges_def expand_arcs_def get_disjunct_def getattr_def expand_sb_component_def
        expand_component_def split: option.splits sb_component.splits component.splits)
  then show ?thesis by (auto simp: dom_def)
qed

lemma wire_items_dom:
  assumes "wire_items w items m = Inr m'"
  shows "dom (edges m') = dom (edges m) \<union> created m m'" "dom (edges m) \<inter> created m m' = {}"
  using wire_items_edges [OF assms, THEN conjunct1, THEN map_le_implies_dom_le]
  by (auto simp: created_def)

lemma build_edge_count:
  assumes "build cfg m = Inr m'"
  shows "card (dom (edges m')) =
           (\<Sum>(k, L)\<leftarrow>unit_disjunct_inlet cfg. length L) +
           (\<Sum>(k, L)\<leftarrow>unit_disjunct_outlet cfg. length L)"
proof -
  from assms obtain m1 m2 m3 m4 m5 where
    s: "create_unit_disjunct cfg (new_selector_block m) = Inr m1"
       "add_units_to_disjunct cfg m1 = Inr m2"
       "build_ports cfg m2 = Inr m3"
       "arc_selector_inlet_to_unit cfg m3 = Inr m4"
       "arc_unit_outlet_to_selector cfg m4 = Inr m5"
       "m' = expand_arcs m5"
    by (auto simp: build_def super_build_def split: sum.splits)
  have "no_edges m1"
    using s(1) by (intro no_edges_create [of "new_selector_block m" cfg])
      (simp_all add: new_selector_block_def)
  with s(2) have "no_edges m2"
    by (auto simp: add_units_to_disjunct_def split: option.splits dest: no_edges_add_units)
  with sb_build_ports [OF s(3)] have "no_edges m3" by (rule no_edges_cong)
  then have e3: "dom (edges m3) = {}" by (auto simp: no_edges_def)
  from s(4) have i: "wire_items inlet_wiring (unit_disjunct_inlet cfg) m3 = Inr m4"
    by (simp add: arc_selector_inlet_to_unit_def)
  from s(5) have o: "wire_items outlet_wiring (unit_disjunct_outlet cfg) m4 = Inr m5"
    by (simp add: arc_unit_outlet_to_selector_def)
  note hi = wire_items_edges [OF i] and ho = wire_items_edges [OF o]
  have d4: "dom (edges m4) = created m3 m4" using wire_items_dom(1) [OF i] e3 by simp
  have "card (dom (edges m5)) = card (created m3 m4) + card (created m4 m5)"
    using wire_items_dom [OF o] hi ho d4 by (simp add: card_Un_disjoint)
  with hi ho s(6) show ?thesis by simp
qed

lemma create_disjuncts_frame:
  "create_disjuncts idxs m = Inr m1 \<Longrightarrow>
   ports m1 = ports m \<and> state_blocks m1 = state_blocks m \<and>
   ((\<forall>n. parent_block m u \<noteq> Branch n) \<longrightarrow> parent_block m1 u = parent_block m u)"
proof (induction idxs arbitrary: m)
  case Nil
  then show ?case by simp
next
  case (Cons i idxs)
  from Cons.prems obtain sb where sb: "selector_block m = Some sb"
    and r: "create_disjuncts idxs (set_disjunct i m sb) = Inr m1"
    by (auto split: option.splits)
  have "(\<forall>n. parent_block m u \<noteq> Branch n) \<Longrightarrow>
        parent_block (set_disjunct i m sb) u = parent_block m u"
    by (cases "parent_block m u") (auto simp: set_disjunct_def orphan_def)
  with Cons.IH [OF r] show ?case
    by (auto simp: set_disjunct_def)
qed

lemma create_unit_disjunct_frame:
  assumes "create_unit_disjunct cfg m = Inr m1"
  shows "ports m1 = ports m" "state_blocks m1 = state_blocks m"
    "\<forall>n. parent_block m u \<noteq> Branch n \<Longrightarrow> parent_block m1 u = parent_block m u"
proof -
  from assms obtain m' where c: "create_disjuncts (RangeSet (length (unit_disjunct cfg))) m = Inr m'"
    and p: "ports m1 = ports m'" "state_blocks m1 = state_blocks m'"
      "parent_block m1 = orphan (\<lambda>n. n = ''unit_disjunction'') (parent_block m')"
    by (auto simp: create_unit_disjunct_def split: sum.splits option.splits)
  note f = create_disjuncts_frame [OF c, of u]
  from f p show "ports m1 = ports m" "state_blocks m1 = state_blocks m" by simp_all
  assume "\<forall>n. parent_block m u \<noteq> Branch n"
  with f p(3) show "parent_block m1 u = parent_block m u"
    by (cases "parent_block m u") (auto simp: orphan_def)
qed

lemma del_from_parent_frame:
  "del_from_parent u m = Inr m' \<Longrightarrow> ports m' = ports m \<and> state_blocks m' = state_blocks m"
  by (auto simp: del_from_parent_def put_disjunct_def split: owner.splits sum.splits)

lemma add_units_frame:
  "add_units i us m = Inr m' \<Longrightarrow> ports m' = ports m \<and> state_blocks m' = state_blocks m"
proof (induction us arbitrary: i m)
  case Nil
  then show ?case by simp
next
  case (Cons u us)
  then show ?case
    by (fastforce simp: put_disjunct_def split: sum.splits dest!: del_from_parent_frame)
qed

lemma state_blocks_add_arc: "add_arc w idx b up m = Inr m' \<Longrightarrow> state_blocks m' = state_blocks m"
  by (auto elim!: add_arc_Inr simp: put_disjunct_def)

lemma state_blocks_fan_out: "fan_out w idx c ps m = Inr m' \<Longrightarrow> state_blocks m' = state_blocks m"
  by (induction ps arbitrary: c m) (auto split: sum.splits dest: state_blocks_add_arc)

lemma state_blocks_wire_items: "wire_items w items m = Inr m' \<Longrightarrow> state_blocks m' = state_blocks m"
proof (induction items arbitrary: m)
  case Nil
  then show ?case by simp
next
  case (Cons item items)
  then show ?case
    by (auto simp: wire_index_def split: sum.splits prod.splits if_splits
        dest!: state_blocks_fan_out state_blocks_add_arc)
qed

lemma map_upd_add: "(f(k \<mapsto> v)) ++ g = f ++ ([k \<mapsto> v] ++ g)"
  by (auto simp: map_add_def fun_eq_iff split: option.splits)

lemma add_state_blocks_frame:
  "\<exists>G. \<forall>m. state_blocks (add_state_blocks t b ps m) = state_blocks m ++ G \<and>
            ports (add_state_blocks t b ps m) = ports m"
proof (induction ps)
  case Nil
  have "\<forall>m. state_blocks (add_state_blocks t b [] m) = state_blocks m ++ Map.empty \<and>
            ports (add_state_blocks t b [] m) = ports m" by simp
  then show ?case by blast
next
  case (Cons p ps)
  then obtain G where G: "\<And>m. state_blocks (add_state_blocks t b ps m) = state_blocks m ++ G"
    "\<And>m. ports (add_state_blocks t b ps m) = ports m" by blast
  let ?v = "build_state_block (''Selector Unit '' @ direction b) (tmp_dict_of t)"
  have "\<forall>m. state_blocks (add_state_blocks t b (p # ps) m) =
             state_blocks m ++ ([p @ ''_state'' \<mapsto> ?v] ++ G) \<and>
            ports (add_state_blocks t b (p # ps) m) = ports m"
    by (simp add: G map_upd_add [symmetric])
  then show ?case by blast
qed

lemma add_ports_frame:
  "\<exists>F. \<forall>m m'. add_ports b ps m = Inr m' \<longrightarrow>
         ports m' = ports m ++ F \<and> state_blocks m' = state_blocks m"
proof (induction ps)
  case Nil
  have "\<forall>m m'. add_ports b [] m = Inr m' \<longrightarrow>
         ports m' = ports m ++ Map.empty \<and> state_blocks m' = state_blocks m" by auto
  then show ?case by blast
next
  case (Cons p ps)
  then obtain F where F: "\<And>m m'. add_ports b ps m = Inr m' \<Longrightarrow>
         ports m' = ports m ++ F \<and> state_blocks m' = state_blocks m" by blast
  let ?v = "\<lparr>block = p @ ''_state'', port_doc = ''Connector '' @ direction b @ '' Port''\<rparr>"
  have "ports m' = ports m ++ ([p \<mapsto> ?v] ++ F) \<and> state_blocks m' = state_blocks m"
    if "add_ports b (p # ps) m = Inr m'" for m m'
  proof -
    from that obtain m1 where
      "add_port p (p @ ''_state'') (''Connector '' @ direction b @ '' Port'') m = Inr m1"
      and r: "add_ports b ps m1 = Inr m'"
      by (auto split: sum.splits)
    then have "ports m1 = (ports m)(p \<mapsto> ?v)" "state_blocks m1 = state_blocks m"
      by (simp_all add: add_port_Inr)
    with F [OF r] show ?thesis
      by (simp add: map_upd_add [symmetric])
  qed
  then show ?case by blast
qed

lemma build_ports_frame:
  "\<exists>F G. \<forall>m m'. build_ports cfg m = Inr m' \<longrightarrow>
         ports m' = ports m ++ F \<and> state_blocks m' = state_blocks m ++ G"
proof -
  obtain G1 where G1: "\<And>m. state_blocks (add_state_blocks (unit_source cfg) True (create_inlet_list cfg) m) =
        state_blocks m ++ G1"
      "\<And>m. ports (add_state_blocks (unit_source cfg) True (create_inlet_list cfg) m) = ports m"
    using add_state_blocks_frame [of "unit_source cfg" True "create_inlet_list cfg"] by blast
  obtain G2 where G2: "\<And>m. state_blocks (add_state_blocks (unit_sink cfg) False (create_outlet_list cfg) m) =
        state_blocks m ++ G2"
      "\<And>m. ports (add_state_blocks (unit_sink cfg) False (create_outlet_list cfg) m) = ports m"
    using add_state_blocks_frame [of "unit_sink cfg" False "create_outlet_list cfg"] by blast
  obtain F1 where F1: "\<And>m m'. add_ports True (create_inlet_list cfg) m = Inr m' \<Longrightarrow>
         ports m' = ports m ++ F1 \<and> state_blocks m' = state_blocks m"
    using add_ports_frame [of True "create_inlet_list cfg"] by blast
  obtain F2 where F2: "\<And>m m'. add_ports False (create_outlet_list cfg) m = Inr m' \<Longrightarrow>
         ports m' = ports m ++ F2 \<and> state_blocks m' = state_blocks m"
    using add_ports_frame [of False "create_outlet_list cfg"] by blast
  have "ports m' = ports m ++ (if construct_ports cfg then F1 ++ F2 else Map.empty) \<and>
        state_blocks m' = state_blocks m ++ (G1 ++ G2)"
    if "build_ports cfg m = Inr m'" for m m'
  proof (cases "construct_ports cfg")
    case True
    with that obtain m5 where
      a: "add_ports True (create_inlet_list cfg)
            ((add_state_blocks (unit_sink cfg) False (create_outlet_list cfg)
               ((add_state_blocks (unit_source cfg) True (create_inlet_list cfg) m)
                  \<lparr>selector_inlet_block := map (\<lambda>p. p @ ''_state'') (create_inlet_list cfg)\<rparr>))
               \<lparr>selector_outlet_block := map (\<lambda>p. p @ ''_state'') (create_outlet_list cfg)\<rparr>) = Inr m5"
      and b: "add_ports False (create_outlet_list cfg) m5 = Inr m'"
      by (auto simp: build_ports_def add_port_state_block_def add_port_objects_def Let_def
          split: sum.splits)
    from F1 [OF a] F2 [OF b] True show ?thesis
      by (simp add: G1 G2)
  next
    case False
    with that show ?thesis
      by (auto simp: build_ports_def add_port_state_block_def add_port_objects_def Let_def G1 G2)
  qed
  then show ?thesis by blast
qed

lemma build_frame:
  "\<exists>F G. \<forall>m m'. build cfg m = Inr m' \<longrightarrow>
         ports m' = ports m ++ F \<and> state_blocks m' = state_blocks m ++ G"
proof -
  from build_ports_frame [of cfg] obtain F G where
    FG: "\<And>m m'. build_ports cfg m = Inr m' \<Longrightarrow>
         ports m' = ports m ++ F \<and> state_blocks m' = state_blocks m ++ G" by blast
  have "ports m' = ports m ++ F \<and> state_blocks m' = state_blocks m ++ G"
    if "build cfg m = Inr m'" for m m'
  proof -
    from that obtain m1 m2 m3 m4 m5 where
      s: "create_unit_disjunct cfg (new_selector_block m) = Inr m1"
         "add_units_to_disjunct cfg m1 = Inr m2"
         "build_ports cfg m2 = Inr m3"
         "arc_selector_inlet_to_unit cfg m3 = Inr m4"
         "arc_unit_outlet_to_selector cfg m4 = Inr m5"
         "m' = expand_arcs m5"
      by (auto simp: build_def super_build_def split: sum.splits)
    have 1: "ports m1 = ports m" "state_blocks m1 = state_blocks m"
      using create_unit_disjunct_frame(1,2) [OF s(1)] by (simp_all add: new_selector_block_def)
    from s(2) have 2: "ports m2 = ports m1" "state_blocks m2 = state_blocks m1"
      by (auto simp: add_units_to_disjunct_def split: option.splits dest: add_units_frame)
    from s(4) have 4: "ports m4 = ports m3" "state_blocks m4 = state_blocks m3"
      by (auto simp: arc_selector_inlet_to_unit_def dest: ports_wire_items state_blocks_wire_items)
    from s(5) have 5: "ports m5 = ports m4" "state_blocks m5 = state_blocks m4"
      by (auto simp: arc_unit_outlet_to_selector_def dest: ports_wire_items state_blocks_wire_items)
    from FG [OF s(3)] 1 2 4 5 s(6) show ?thesis by (simp add: expand_arcs_def)
  qed
  then show ?thesis by blast
qed

lemma build_twice_ports:
  assumes "build cfg m = Inr m1" "build cfg m1 = Inr m2"
  shows "ports m2 = ports m1" "state_blocks m2 = state_blocks m1"
proof -
  from build_frame [of cfg] obtain F G where
    FG: "\<And>m m'. build cfg m = Inr m' \<Longrightarrow>
         ports m' = ports m ++ F \<and> state_blocks m' = state_blocks m ++ G" by blast
  have idem: "f ++ g ++ g = f ++ g" for f g :: "name \<rightharpoonup> 'x"
    by (auto simp: map_add_def fun_eq_iff split: option.splits)
  from FG [OF assms(1)] FG [OF assms(2)]
  show "ports m2 = ports m1" "state_blocks m2 = state_blocks m1"
    by (simp_all add: idem)
qed

subsection \<open>Relocation into new branches\<close>

lemma del_from_parent_attached:
  assumes "parent_block m (ident u) \<noteq> NoParent"
  shows "\<exists>m1. del_from_parent u m = Inr m1 \<and>
           parent_block m1 = (parent_block m)(ident u := NoParent) \<and>
           reserved_words m1 = reserved_words m \<and>
           (\<forall>n. parent_block m (ident u) \<noteq> Branch n \<longrightarrow> get_disjunct m1 n = get_disjunct m n)"
proof (cases "parent_block m (ident u)")
  case (Branch b)
  show ?thesis
  proof (cases "get_disjunct m b")
    case (Inl e)
    with Branch show ?thesis by (simp add: del_from_parent_def get_disjunct_def)
  next
    case (Inr d)
    then obtain sb where sb: "selector_block m = Some sb" by (auto simp: get_disjunct_Inr)
    from Branch Inr show ?thesis
      by (simp add: del_from_parent_def get_disjunct_def put_disjunct_def sb getattr_def)
  qed
qed (use assms in \<open>simp_all add: del_from_parent_def get_disjunct_def\<close>)

lemma add_units_step:
  assumes f: "fresh_from m i (Suc n)" and p: "parent_block m (ident u) \<noteq> NoParent"
  obtains m1 m2 where
    "parent_block m1 (ident u) = NoParent"
    "reserved (reserved_words m) (local_name u) \<Longrightarrow> add_units i (u # us) m = Inl (ValueError, m1)"
    "\<not> reserved (reserved_words m) (local_name u) \<Longrightarrow>
       add_units i (u # us) m = add_units (i + 1) us m2"
    "fresh_from m2 (i + 1) n"
    "reserved_words m2 = reserved_words m"
    "parent_block m2 = (parent_block m)(ident u := Branch (''unit_disjunct_'' @ str_nat (i + 1)))"
proof -
  let ?D = "''unit_disjunct_'' @ str_nat (i + 1)"
  let ?F = "Disjunct (reserved_words m)"
  from f have g: "get_disjunct m ?D = Inr ?F"
    and fa: "\<And>j. i < j \<Longrightarrow> j \<le> i + Suc n \<Longrightarrow>
               get_disjunct m (''unit_disjunct_'' @ str_nat j) = Inr ?F"
    and fb: "\<And>x b. parent_block m x = Branch b \<Longrightarrow>
               \<exists>j. 1 \<le> j \<and> j \<le> i \<and> b = ''unit_disjunct_'' @ str_nat j"
    by (auto simp: fresh_from_def)
  from del_from_parent_attached [OF p] obtain m1 where
    m1: "del_from_parent u m = Inr m1"
      "parent_block m1 = (parent_block m)(ident u := NoParent)"
      "reserved_words m1 = reserved_words m"
      "\<And>n. parent_block m (ident u) \<noteq> Branch n \<Longrightarrow> get_disjunct m1 n = get_disjunct m n"
    by blast
  have keep: "get_disjunct m1 (''unit_disjunct_'' @ str_nat j) = Inr ?F"
    if "i < j" "j \<le> i + Suc n" for j
  proof -
    have "parent_block m (ident u) \<noteq> Branch (''unit_disjunct_'' @ str_nat j)"
      using fb [of "ident u" "''unit_disjunct_'' @ str_nat j"] that by auto
    from m1(4) [OF this] fa [OF that] show ?thesis by simp
  qed
  from keep [of "i + 1"] have g1: "get_disjunct m1 ?D = Inr ?F" by simp
  then obtain sb1 where sb1: "selector_block m1 = Some sb1" by (auto simp: get_disjunct_Inr)
  let ?m2 = "(put_disjunct m1 ?D (?F(local_name u \<mapsto> UnitBlock u)))
               \<lparr>parent_block := (parent_block m1)(ident u := Branch ?D)\<rparr>"
  show ?thesis
  proof (rule that [of m1 ?m2])
    show "parent_block m1 (ident u) = NoParent" by (simp add: m1(2))
    show "add_units i (u # us) m = Inl (ValueError, m1)"
      if "reserved (reserved_words m) (local_name u)"
      using that g m1(1,3) g1 by (simp add: add_component_def Disjunct_def)
    show "add_units i (u # us) m = add_units (i + 1) us ?m2"
      if "\<not> reserved (reserved_words m) (local_name u)"
      using that g m1(1,3) g1 by (simp add: add_component_def Disjunct_def)
    show "reserved_words ?m2 = reserved_words m" by (simp add: m1(3))
    show "parent_block ?m2 = (parent_block m)(ident u := Branch ?D)"
      by (simp add: m1(2))
    show "fresh_from ?m2 (i + 1) n"
      unfolding fresh_from_def
    proof (intro conjI allI impI; (elim conjE)?)
      fix j assume j: "i + 1 < j" "j \<le> i + 1 + n"
      then have "get_disjunct (put_disjunct m1 ?D (?F(local_name u \<mapsto> UnitBlock u)))
                   (''unit_disjunct_'' @ str_nat j) = Inr ?F"
        using keep [of j] by (simp add: get_put_disjunct [OF sb1])
      then show "get_disjunct ?m2 (''unit_disjunct_'' @ str_nat j) =
                   Inr (Disjunct (reserved_words ?m2))"
        by (simp add: get_disjunct_def m1(3))
    next
      fix x b assume "parent_block ?m2 x = Branch b"
      then have "x = ident u \<and> b = ?D \<or> parent_block m x = Branch b"
        by (auto simp: m1(2) split: if_splits)
      then show "\<exists>j. 1 \<le> j \<and> j \<le> i + 1 \<and> b = ''unit_disjunct_'' @ str_nat j"
      proof
        assume "x = ident u \<and> b = ?D"
        then show ?thesis by (intro exI [of _ "i + 1"]) simp
      next
        assume "parent_block m x = Branch b"
        from fb [OF this] show ?thesis by auto
      qed
    qed
  qed
qed

lemma add_units_detached:
  assumes "fresh_from m i (Suc n)" "parent_block m (ident u) = NoParent"
  shows "add_units i (u # us) m = Inl (AttributeError, m)"
  using assms by (simp add: fresh_from_def del_from_parent_def)

lemma add_units_succeeds:
  assumes "fresh_from m i (length us)"
    and "\<forall>u\<in>set us. parent_block m (ident u) \<noteq> NoParent \<and> \<not> reserved (reserved_words m) (local_name u)"
  shows "\<exists>m'. add_units i us m = Inr m'"
  using assms
proof (induction us arbitrary: i m)
  case Nil
  then show ?case by simp
next
  case (Cons u us)
  from Cons.prems have f: "fresh_from m i (Suc (length us))"
    and p: "parent_block m (ident u) \<noteq> NoParent"
    and nr: "\<not> reserved (reserved_words m) (local_name u)" by simp_all
  from add_units_step [OF f p, of us] obtain m2 where
    s: "add_units i (u # us) m = add_units (i + 1) us m2" "fresh_from m2 (i + 1) (length us)"
      "reserved_words m2 = reserved_words m"
      "parent_block m2 = (parent_block m)(ident u := Branch (''unit_disjunct_'' @ str_nat (i + 1)))"
    using nr by metis
  have "\<forall>x\<in>set us. parent_block m2 (ident x) \<noteq> NoParent \<and>
          \<not> reserved (reserved_words m2) (local_name x)"
    using Cons.prems(2) by (simp add: s(3,4))
  from Cons.IH [OF s(2) this] s(1) show ?case by simp
qed

lemma add_units_reserved:
  assumes "fresh_from m i (length (us1 @ u # us2))"
    and "\<forall>x\<in>set us1. parent_block m (ident x) \<noteq> NoParent \<and>
           \<not> reserved (reserved_words m) (local_name x)"
    and "parent_block m (ident u) \<noteq> NoParent"
    and "reserved (reserved_words m) (local_name u)"
  shows "\<exists>mf. add_units i (us1 @ u # us2) m = Inl (ValueError, mf) \<and>
           parent_block mf (ident u) = NoParent"
  using assms
proof (induction us1 arbitrary: i m)
  case Nil
  then have f: "fresh_from m i (Suc (length us2))" by simp
  from add_units_step [OF f Nil.prems(3), of us2] Nil.prems(4) show ?case
    by (metis append_Nil)
next
  case (Cons x us1)
  from Cons.prems have f: "fresh_from m i (Suc (length (us1 @ u # us2)))"
    and p: "parent_block m (ident x) \<noteq> NoParent"
    and nr: "\<not> reserved (reserved_words m) (local_name x)" by simp_all
  from add_units_step [OF f p, of "us1 @ u # us2"] obtain m2 where
    s: "add_units i (x # us1 @ u # us2) m = add_units (i + 1) (us1 @ u # us2) m2"
      "fresh_from m2 (i + 1) (length (us1 @ u # us2))"
      "reserved_words m2 = reserved_words m"
      "parent_block m2 = (parent_block m)(ident x := Branch (''unit_disjunct_'' @ str_nat (i + 1)))"
    using nr by metis
  have a: "\<forall>y\<in>set us1. parent_block m2 (ident y) \<noteq> NoParent \<and>
          \<not> reserved (reserved_words m2) (local_name y)"
    using Cons.prems(2) by (simp add: s(3,4))
  have b: "parent_block m2 (ident u) \<noteq> NoParent" using Cons.prems(3) by (simp add: s(4))
  have c: "reserved (reserved_words m2) (local_name u)" using Cons.prems(4) by (simp add: s(3))
  from Cons.IH [OF s(2) a b c] s(1) show ?case by simp
qed

lemma add_units_fresh_Inr:
  assumes "fresh_from m i (length us)" and "add_units i us m = Inr m'"
  shows "(\<forall>u\<in>set us. \<not> reserved (reserved_words m) (local_name u)) \<and>
         (\<forall>u\<in>set us. \<exists>b. parent_block m' (ident u) = Branch b) \<and>
         reserved_words m' = reserved_words m"
  using assms
proof (induction us arbitrary: i m)
  case Nil
  then show ?case by simp
next
  case (Cons u us)
  from Cons.prems have f: "fresh_from m i (Suc (length us))" by simp
  have p: "parent_block m (ident u) \<noteq> NoParent"
    using add_units_detached [OF f, of u us] Cons.prems(2) by auto
  from add_units_step [OF f p, of us] obtain m1 m2 where
    s: "reserved (reserved_words m) (local_name u) \<Longrightarrow> add_units i (u # us) m = Inl (ValueError, m1)"
      "\<not> reserved (reserved_words m) (local_name u) \<Longrightarrow>
         add_units i (u # us) m = add_units (i + 1) us m2"
      "fresh_from m2 (i + 1) (length us)"
      "reserved_words m2 = reserved_words m"
      "parent_block m2 = (parent_block m)(ident u := Branch (''unit_disjunct_'' @ str_nat (i + 1)))"
    by metis
  from s(1) Cons.prems(2) have nr: "\<not> reserved (reserved_words m) (local_name u)" by auto
  with s(2) Cons.prems(2) have r: "add_units (i + 1) us m2 = Inr m'" by simp
  note ih = Cons.IH [OF s(3) r]
  have "\<exists>b. parent_block m' (ident u) = Branch b"
  proof (cases "\<exists>x\<in>set us. ident x = ident u")
    case True
    with ih show ?thesis by metis
  next
    case False
    have "parent_block m' y = parent_block m2 y" if "\<forall>x\<in>set us. ident x \<noteq> y" for y
      using r that
    proof (induction us arbitrary: i m2)
      case Nil
      then show ?case by simp
    next
      case (Cons v vs)
      from Cons.prems(1) obtain ma d' where
        "del_from_parent v m2 = Inr ma"
        and rest: "add_units (i + 1 + 1) vs
            ((put_disjunct ma (''unit_disjunct_'' @ str_nat (i + 1 + 1)) d')
               \<lparr>parent_block := (parent_block ma)
                  (ident v := Branch (''unit_disjunct_'' @ str_nat (i + 1 + 1)))\<rparr>) = Inr m'"
        by (auto split: sum.splits)
      then have "parent_block ma y = parent_block m2 y"
        using Cons.prems(2)
        by (auto simp: del_from_parent_def put_disjunct_def split: owner.splits sum.splits)
      with Cons.IH [OF rest] Cons.prems(2) show ?case by (simp add: put_disjunct_def)
    qed
    with False have "parent_block m' (ident u) = parent_block m2 (ident u)" by auto
    then show ?thesis by (simp add: s(5))
  qed
  with ih nr s(4) show ?case by simp
qed

lemma add_units_fresh_Inl:
  assumes "fresh_from m i (length us)" and "add_units i us m = Inl (e, mf)"
  shows "e = AttributeError \<or> e = ValueError"
  using assms
proof (induction us arbitrary: i m)
  case Nil
  then show ?case by simp
next
  case (Cons u us)
  from Cons.prems have f: "fresh_from m i (Suc (length us))" by simp
  show ?case
  proof (cases "parent_block m (ident u) = NoParent")
    case True
    from add_units_detached [OF f True, of us] Cons.prems(2) show ?thesis by simp
  next
    case False
    from add_units_step [OF f False, of us] obtain m1 m2 where
      s: "reserved (reserved_words m) (local_name u) \<Longrightarrow> add_units i (u # us) m = Inl (ValueError, m1)"
        "\<not> reserved (reserved_words m) (local_name u) \<Longrightarrow>
           add_units i (u # us) m = add_units (i + 1) us m2"
        "fresh_from m2 (i + 1) (length us)"
      by metis
    show ?thesis
    proof (cases "reserved (reserved_words m) (local_name u)")
      case True
      with s(1) Cons.prems(2) show ?thesis by simp
    next
      case False
      with s(2) Cons.prems(2) have "add_units (i + 1) us m2 = Inl (e, mf)" by simp
      from Cons.IH [OF s(3) this] show ?thesis .
    qed
  qed
qed

subsection \<open>What the stages of build leave alone\<close>

lemma create_disjuncts_rest:
  "create_disjuncts idxs m = Inr m1 \<Longrightarrow> reserved_words m1 = reserved_words m"
proof (induction idxs arbitrary: m)
  case Nil
  then show ?case by simp
next
  case (Cons i idxs)
  then show ?case by (auto split: option.splits dest!: Cons.IH)
qed

lemma create_unit_disjunct_rest:
  assumes "create_unit_disjunct cfg m = Inr m1"
  shows "reserved_words m1 = reserved_words m"
proof -
  from assms obtain m' where
    c: "create_disjuncts (RangeSet (length (unit_disjunct cfg))) m = Inr m'"
    and p: "reserved_words m1 = reserved_words m'"
    by (auto simp: create_unit_disjunct_def split: sum.splits option.splits)
  from create_disjuncts_rest [OF c] p show ?thesis by simp
qed

lemma add_arc_rest:
  "add_arc w idx b up m = Inr m' \<Longrightarrow>
   parent_block m' = parent_block m \<and> reserved_words m' = reserved_words m"
  by (auto elim!: add_arc_Inr simp: put_disjunct_def)

lemma fan_out_rest:
  "fan_out w idx c ps m = Inr m' \<Longrightarrow>
   parent_block m' = parent_block m \<and> reserved_words m' = reserved_words m"
  by (induction ps arbitrary: c m) (auto split: sum.splits dest!: add_arc_rest)

lemma wire_items_rest:
  "wire_items w items m = Inr m' \<Longrightarrow>
   parent_block m' = parent_block m \<and> reserved_words m' = reserved_words m"
proof (induction items arbitrary: m)
  case Nil
  then show ?case by simp
next
  case (Cons item items)
  then show ?case
    by (auto simp: wire_index_def split: sum.splits prod.splits if_splits
        dest!: fan_out_rest add_arc_rest)
qed

lemma add_state_blocks_rest [simp]:
  "parent_block (add_state_blocks t b ps m) = parent_block m"
  "reserved_words (add_state_blocks t b ps m) = reserved_words m"
  "ports (add_state_blocks t b ps m) = ports m"
  by (induction ps arbitrary: m) auto

lemma add_state_blocks_dom:
  "state_blocks m n \<noteq> None \<or> n \<in> (\<lambda>p. p @ ''_state'') ` set ps \<Longrightarrow>
   state_blocks (add_state_blocks t b ps m) n \<noteq> None"
  by (induction ps arbitrary: m) auto

lemma add_ports_rest:
  "add_ports b ps m = Inr m' \<Longrightarrow>
   parent_block m' = parent_block m \<and> reserved_words m' = reserved_words m \<and>
   (\<forall>p. ports m p \<noteq> None \<or> p \<in> set ps \<longrightarrow> ports m' p \<noteq> None)"
proof (induction ps arbitrary: m)
  case Nil
  then show ?case by simp
next
  case (Cons p ps)
  from Cons.prems obtain m1 where
    a: "add_port p (p @ ''_state'') (''Connector '' @ direction b @ '' Port'') m = Inr m1"
    and r: "add_ports b ps m1 = Inr m'"
    by (auto split: sum.splits)
  from a have "parent_block m1 = parent_block m" "reserved_words m1 = reserved_words m"
    "\<forall>q. ports m q \<noteq> None \<or> q = p \<longrightarrow> ports m1 q \<noteq> None"
    by (auto simp: add_port_Inr)
  with Cons.IH [OF r] show ?case by auto
qed

lemma build_ports_unfold:
  "build_ports cfg m =
     (let m4 = (add_state_blocks (unit_sink cfg) False (create_outlet_list cfg)
                 ((add_state_blocks (unit_source cfg) True (create_inlet_list cfg) m)
                    \<lparr>selector_inlet_block := map (\<lambda>p. p @ ''_state'') (create_inlet_list cfg)\<rparr>))
                 \<lparr>selector_outlet_block := map (\<lambda>p. p @ ''_state'') (create_outlet_list cfg)\<rparr>
      in if construct_ports cfg
         then (case add_ports True (create_inlet_list cfg) m4 of
                 Inl e \<Rightarrow> Inl e
               | Inr m5 \<Rightarrow> add_ports False (create_outlet_list cfg) m5)
         else Inr m4)"
  by (simp add: build_ports_def add_port_state_block_def Let_def add_port_objects_def
      split: sum.splits)

lemma build_ports_rest:
  assumes "build_ports cfg m = Inr m'"
  shows "parent_block m' = parent_block m" "reserved_words m' = reserved_words m"
    "construct_ports cfg \<Longrightarrow>
     p \<in> set (create_inlet_list cfg) \<union> set (create_outlet_list cfg) \<Longrightarrow> ports m' p \<noteq> None"
    "\<not> construct_ports cfg \<or> (create_inlet_list cfg = [] \<and> create_outlet_list cfg = []) \<Longrightarrow>
     ports m' = ports m"
proof -
  define m4 where "m4 = (add_state_blocks (unit_sink cfg) False (create_outlet_list cfg)
               ((add_state_blocks (unit_source cfg) True (create_inlet_list cfg) m)
                  \<lparr>selector_inlet_block := map (\<lambda>p. p @ ''_state'') (create_inlet_list cfg)\<rparr>))
               \<lparr>selector_outlet_block := map (\<lambda>p. p @ ''_state'') (create_outlet_list cfg)\<rparr>"
  have m4: "parent_block m4 = parent_block m" "reserved_words m4 = reserved_words m"
    "ports m4 = ports m" by (simp_all add: m4_def)
  have e: "build_ports cfg m =
     (if construct_ports cfg
      then (case add_ports True (create_inlet_list cfg) m4 of
              Inl e \<Rightarrow> Inl e
            | Inr m5 \<Rightarrow> add_ports False (create_outlet_list cfg) m5)
      else Inr m4)"
    unfolding m4_def build_ports_unfold Let_def ..
  have "parent_block m' = parent_block m \<and> reserved_words m' = reserved_words m \<and>
        (construct_ports cfg \<longrightarrow>
           p \<in> set (create_inlet_list cfg) \<union> set (create_outlet_list cfg) \<longrightarrow> ports m' p \<noteq> None) \<and>
        (\<not> construct_ports cfg \<or> (create_inlet_list cfg = [] \<and> create_outlet_list cfg = []) \<longrightarrow>
           ports m' = ports m)"
  proof (cases "construct_ports cfg")
    case False
    with assms e have "m' = m4" by simp
    with m4 False show ?thesis by simp
  next
    case True
    with assms e obtain m5 where a: "add_ports True (create_inlet_list cfg) m4 = Inr m5"
      and b: "add_ports False (create_outlet_list cfg) m5 = Inr m'"
      by (cases "add_ports True (create_inlet_list cfg) m4") simp_all
    note ra = add_ports_rest [OF a] and rb = add_ports_rest [OF b]
    have "ports m' = ports m"
      if "create_inlet_list cfg = []" "create_outlet_list cfg = []"
      using a b that m4(3) by simp
    with ra rb m4 True show ?thesis by auto
  qed
  then show "parent_block m' = parent_block m" "reserved_words m' = reserved_words m"
    "construct_ports cfg \<Longrightarrow>
     p \<in> set (create_inlet_list cfg) \<union> set (create_outlet_list cfg) \<Longrightarrow> ports m' p \<noteq> None"
    "\<not> construct_ports cfg \<or> (create_inlet_list cfg = [] \<and> create_outlet_list cfg = []) \<Longrightarrow>
     ports m' = ports m"
    by blast+
qed

lemma add_ports_taken:
  assumes "ps \<noteq> []" "state_blocks m (hd ps @ ''_state'') \<noteq> None" "ports m (hd ps) \<noteq> None"
  shows "add_ports b ps m = Inl (RuntimeError, m)"
  using assms
  by (cases ps) (auto simp: getattr_def add_port_def add_component_def)

lemma build_ports_taken:
  assumes c: "construct_ports cfg"
    and taken: "\<And>p. p \<in> set (create_inlet_list cfg) \<union> set (create_outlet_list cfg) \<Longrightarrow>
                  ports m p \<noteq> None"
    and some: "create_inlet_list cfg \<noteq> [] \<or> create_outlet_list cfg \<noteq> []"
  shows "\<exists>mf. build_ports cfg m = Inl (RuntimeError, mf) \<and> ports mf = ports m \<and>
           selector_block mf = selector_block m \<and> parent_block mf = parent_block m"
proof -
  let ?ins = "create_inlet_list cfg" and ?outs = "create_outlet_list cfg"
  let ?m4 = "(add_state_blocks (unit_sink cfg) False ?outs
               ((add_state_blocks (unit_source cfg) True ?ins m)
                  \<lparr>selector_inlet_block := map (\<lambda>p. p @ ''_state'') ?ins\<rparr>))
               \<lparr>selector_outlet_block := map (\<lambda>p. p @ ''_state'') ?outs\<rparr>"
  have e: "build_ports cfg m =
     (case add_ports True ?ins ?m4 of
        Inl e \<Rightarrow> Inl e
      | Inr m5 \<Rightarrow> add_ports False ?outs m5)"
    unfolding build_ports_unfold Let_def using c by simp
  have m4: "ports ?m4 = ports m" "selector_block ?m4 = selector_block m"
    "parent_block ?m4 = parent_block m" by simp_all
  have sb: "state_blocks ?m4 (p @ ''_state'') \<noteq> None" if "p \<in> set ?ins \<union> set ?outs" for p
  proof -
    from that have "state_blocks (add_state_blocks (unit_source cfg) True ?ins m) (p @ ''_state'') \<noteq> None
        \<or> p @ ''_state'' \<in> (\<lambda>p. p @ ''_state'') ` set ?outs"
      using add_state_blocks_dom [of m "p @ ''_state''" ?ins "unit_source cfg" True] by auto
    then have "state_blocks
        ((add_state_blocks (unit_source cfg) True ?ins m)
           \<lparr>selector_inlet_block := map (\<lambda>p. p @ ''_state'') ?ins\<rparr>) (p @ ''_state'') \<noteq> None
        \<or> p @ ''_state'' \<in> (\<lambda>p. p @ ''_state'') ` set ?outs"
      by simp
    from add_state_blocks_dom [OF this] show ?thesis by simp
  qed
  show ?thesis
  proof (cases "?ins = []")
    case False
    then have h: "hd ?ins \<in> set ?ins \<union> set ?outs" by simp
    from add_ports_taken [OF False sb [OF h]] taken [OF h]
    have "add_ports True ?ins ?m4 = Inl (RuntimeError, ?m4)" by (simp add: m4(1))
    with m4 show ?thesis unfolding e by simp
  next
    case True
    with some have o: "?outs \<noteq> []" by simp
    then have h: "hd ?outs \<in> set ?ins \<union> set ?outs" by simp
    from add_ports_taken [OF o sb [OF h]] taken [OF h]
    have "add_ports False ?outs ?m4 = Inl (RuntimeError, ?m4)" by (simp add: m4(1))
    with True m4 show ?thesis unfolding e by simp
  qed
qed

subsection \<open>The relocation stage inside build\<close>

lemma create_fresh:
  assumes "create_unit_disjunct cfg (new_selector_block m) = Inr m1"
  shows "fresh_from m1 0 (length (unit_disjunct cfg))"
    and "reserved_words m1 = reserved_words m"
    and "parent_block m1 x = (case parent_block m x of Branch b \<Rightarrow> Orphaned | w \<Rightarrow> w)"
    and "ports m1 = ports m"
    and "selector_block m1 \<noteq> None"
proof -
  let ?m0 = "new_selector_block m"
  have sb0: "selector_block ?m0 = Some Map.empty" by (simp add: new_selector_block_def)
  have p0: "parent_block ?m0 y = (case parent_block m y of Branch b \<Rightarrow> Orphaned | w \<Rightarrow> w)" for y
    by (simp add: new_selector_block_def orphan_def split: owner.splits)
  then have nb: "\<forall>n. parent_block ?m0 y \<noteq> Branch n" for y
    by (cases "parent_block m y") simp_all
  from create_unit_disjunct_frame(3) [OF assms nb] p0
  show p1: "parent_block m1 x = (case parent_block m x of Branch b \<Rightarrow> Orphaned | w \<Rightarrow> w)" for x
    by simp
  from create_unit_disjunct_rest [OF assms]
  show rw: "reserved_words m1 = reserved_words m" by (simp add: new_selector_block_def)
  from create_unit_disjunct_frame(1) [OF assms] show "ports m1 = ports m"
    by (simp add: new_selector_block_def)
  from create_unit_disjunct_fresh [OF sb0, of cfg] assms
  have s1: "selector_block m1 =
       Some ((\<lambda>n. if n \<in> (\<lambda>i. ''unit_disjunct_'' @ str_nat i) ` {1..length (unit_disjunct cfg)}
                  then Some (DisjunctC (Disjunct (reserved_words ?m0))) else None)
             (''unit_disjunction'' \<mapsto>
                DisjunctionC True
                  (map (\<lambda>i. ''unit_disjunct_'' @ str_nat i) [1..<Suc (length (unit_disjunct cfg))])))"
    by auto
  then show "selector_block m1 \<noteq> None" by simp
  have "get_disjunct m1 (''unit_disjunct_'' @ str_nat j) = Inr (Disjunct (reserved_words m1))"
    if "0 < j" "j \<le> length (unit_disjunct cfg)" for j
  proof -
    from that have "''unit_disjunct_'' @ str_nat j \<in>
        (\<lambda>i. ''unit_disjunct_'' @ str_nat i) ` {1..length (unit_disjunct cfg)}"
      by (intro imageI) simp
    with s1 show ?thesis
      by (simp add: get_disjunct_Inr rw new_selector_block_def)
  qed
  moreover have "parent_block m1 y \<noteq> Branch b" for y b
    using p1 [of y] by (cases "parent_block m y") simp_all
  ultimately show "fresh_from m1 0 (length (unit_disjunct cfg))"
    by (simp add: fresh_from_def)
qed

lemma build_stages:
  assumes "build cfg m = Inr m'"
  obtains m1 m2 m3 m4 m5 where
    "create_unit_disjunct cfg (new_selector_block m) = Inr m1"
    "add_units 0 (unit_disjunct cfg) m1 = Inr m2"
    "build_ports cfg m2 = Inr m3"
    "wire_items inlet_wiring (unit_disjunct_inlet cfg) m3 = Inr m4"
    "wire_items outlet_wiring (unit_disjunct_outlet cfg) m4 = Inr m5"
    "m' = expand_arcs m5"
  using assms
  by (auto simp: build_def super_build_def add_units_to_disjunct_def
      arc_selector_inlet_to_unit_def arc_unit_outlet_to_selector_def
      split: sum.splits option.splits)

lemma build_rest:
  assumes "build cfg m = Inr m'"
  shows "reserved_words m' = reserved_words m"
    and "\<forall>u\<in>set (unit_disjunct cfg). \<not> reserved (reserved_words m) (local_name u)"
    and "\<forall>u\<in>set (unit_disjunct cfg). \<exists>b. parent_block m' (ident u) = Branch b"
    and "construct_ports cfg \<Longrightarrow>
         p \<in> set (create_inlet_list cfg) \<union> set (create_outlet_list cfg) \<Longrightarrow> ports m' p \<noteq> None"
proof -
  from assms obtain m1 m2 m3 m4 m5 where
    s: "create_unit_disjunct cfg (new_selector_block m) = Inr m1"
      "add_units 0 (unit_disjunct cfg) m1 = Inr m2"
      "build_ports cfg m2 = Inr m3"
      "wire_items inlet_wiring (unit_disjunct_inlet cfg) m3 = Inr m4"
      "wire_items outlet_wiring (unit_disjunct_outlet cfg) m4 = Inr m5"
      "m' = expand_arcs m5"
    by (rule build_stages)
  note c = create_fresh [OF s(1)]
  note a = add_units_fresh_Inr [OF c(1) s(2)]
  note b = build_ports_rest [OF s(3)]
  note i = wire_items_rest [OF s(4)] and o = wire_items_rest [OF s(5)]
  show "reserved_words m' = reserved_words m"
    using a b(2) i o c(2) s(6) by (simp add: expand_arcs_def)
  show "\<forall>u\<in>set (unit_disjunct cfg). \<not> reserved (reserved_words m) (local_name u)"
    using a c(2) by simp
  show "\<forall>u\<in>set (unit_disjunct cfg). \<exists>b. parent_block m' (ident u) = Branch b"
    using a b(1) i o s(6) by (simp add: expand_arcs_def)
  show "ports m' p \<noteq> None"
    if "construct_ports cfg" "p \<in> set (create_inlet_list cfg) \<union> set (create_outlet_list cfg)"
    using b(3) [OF that] ports_wire_items [OF s(4)] ports_wire_items [OF s(5)] s(6)
    by (simp add: expand_arcs_def)
qed

subsection \<open>Candidates\<close>

lemma build_reserved_name:
  assumes u: "unit_disjunct cfg = us1 @ u # us2"
    and pre: "\<forall>x\<in>set us1. parent_block m (ident x) \<noteq> NoParent \<and>
                \<not> reserved (reserved_words m) (local_name x)"
    and att: "parent_block m (ident u) \<noteq> NoParent"
    and res: "reserved (reserved_words m) (local_name u)"
  shows "\<exists>mf. build cfg m = Inl (ValueError, mf) \<and> parent_block mf (ident u) = NoParent"
proof -
  have sb0: "selector_block (new_selector_block m) = Some Map.empty"
    by (simp add: new_selector_block_def)
  from create_unit_disjunct_fresh [OF sb0, of cfg] obtain m1 where
    m1: "create_unit_disjunct cfg (new_selector_block m) = Inr m1" by blast
  note c = create_fresh [OF m1]
  have np: "parent_block m1 x \<noteq> NoParent" if "parent_block m x \<noteq> NoParent" for x
    using that c(3) [of x] by (cases "parent_block m x") simp_all
  from c(1) have f: "fresh_from m1 0 (length (us1 @ u # us2))" by (simp add: u)
  have a: "\<forall>x\<in>set us1. parent_block m1 (ident x) \<noteq> NoParent \<and>
             \<not> reserved (reserved_words m1) (local_name x)"
    using pre np by (simp add: c(2))
  from add_units_reserved [OF f a np [OF att]] res obtain mf where
    mf: "add_units 0 (us1 @ u # us2) m1 = Inl (ValueError, mf)"
      "parent_block mf (ident u) = NoParent"
    by (auto simp: c(2))
  from c(5) mf(1) have "add_units_to_disjunct cfg m1 = Inl (ValueError, mf)"
    by (auto simp: add_units_to_disjunct_def u)
  with m1 have "build cfg m = Inl (ValueError, mf)"
    by (simp add: build_def super_build_def)
  with mf(2) show ?thesis by blast
qed

lemma build_relocation_errors:
  assumes "create_unit_disjunct cfg (new_selector_block m) = Inr m1"
    and "add_units_to_disjunct cfg m1 = Inl (e, mf)"
  shows "e = AttributeError \<or> e = ValueError"
proof -
  note c = create_fresh [OF assms(1)]
  from c(5) assms(2) have "add_units 0 (unit_disjunct cfg) m1 = Inl (e, mf)"
    by (auto simp: add_units_to_disjunct_def)
  from add_units_fresh_Inl [OF c(1) this] show ?thesis .
qed

lemma build_no_candidates:
  assumes "unit_disjunct cfg = []"
  shows "\<exists>m1. create_unit_disjunct cfg (new_selector_block m) = Inr m1 \<and>
           selector_block m1 = Some [''unit_disjunction'' \<mapsto> DisjunctionC True []] \<and>
           add_units_to_disjunct cfg m1 = Inr m1"
    and "unit_disjunct_inlet cfg = [] \<Longrightarrow> unit_disjunct_outlet cfg = [] \<Longrightarrow>
         \<exists>m'. build cfg m = Inr m'"
proof -
  have sb0: "selector_block (new_selector_block m) = Some Map.empty"
    by (simp add: new_selector_block_def)
  from create_unit_disjunct_fresh [OF sb0, of cfg] assms obtain m1 where
    m1: "create_unit_disjunct cfg (new_selector_block m) = Inr m1"
      "selector_block m1 = Some [''unit_disjunction'' \<mapsto> DisjunctionC True []]"
    by auto
  then have a: "add_units_to_disjunct cfg m1 = Inr m1"
    by (simp add: add_units_to_disjunct_def assms)
  with m1 show "\<exists>m1. create_unit_disjunct cfg (new_selector_block m) = Inr m1 \<and>
           selector_block m1 = Some [''unit_disjunction'' \<mapsto> DisjunctionC True []] \<and>
           add_units_to_disjunct cfg m1 = Inr m1" by blast
  assume "unit_disjunct_inlet cfg = []" "unit_disjunct_outlet cfg = []"
  with m1 a show "\<exists>m'. build cfg m = Inr m'"
    by (simp add: build_def super_build_def build_ports_unfold
        create_inlet_list_def create_outlet_list_def
        arc_selector_inlet_to_unit_def arc_unit_outlet_to_selector_def Let_def)
qed

text \<open>
  With no candidates and no indices \<open>build\<close> returns; with a candidate named \<open>indicator_var\<close>
  it fails with \<open>ValueError\<close>.
\<close>

theorem build_candidate_errors_counterexample:
  "(case build example_config_none example_model of Inl _ \<Rightarrow> False | Inr _ \<Rightarrow> True) \<and>
   (case build example_config_clash example_model of
      Inl (e, mf) \<Rightarrow> e = ValueError
    | Inr _ \<Rightarrow> False)"
  by (simp add: build_def super_build_def new_selector_block_def create_unit_disjunct_def
      example_config_none_def example_config_clash_def example_eval add_units_to_disjunct_def
      build_ports_def create_inlet_list_def create_outlet_list_def add_port_state_block_def
      add_port_objects_def del_from_parent_def orphan_def)

text \<open>
  C7, as the code has it. The branch stage and the relocation stage have no check of the
  candidate list and raise no \<open>ConfigurationError\<close>. With an empty candidate list the branch
  stage creates no branch and a disjunction over nothing, the relocation stage does nothing,
  and \<open>build\<close> returns when no inlet or outlet index is declared. Inside \<open>build\<close> a branch is
  new when its candidate is moved into it and holds nothing but its reserved attributes, so
  the relocation stage fails with \<open>AttributeError\<close> or \<open>ValueError\<close> only: when the candidates
  before it have a parent and a name that is not reserved, a candidate that has a parent and
  the name of a reserved attribute makes \<open>build\<close> fail with the \<open>ValueError\<close> of
  \<open>add_component\<close>, the candidate already removed from its parent.
\<close>

theorem build_candidate_errors:
  "(\<forall>m' e mf. create_unit_disjunct cfg m' = Inl (e, mf) \<or>
              add_units_to_disjunct cfg m' = Inl (e, mf) \<longrightarrow> e \<noteq> ConfigurationError) \<and>
   (unit_disjunct cfg = [] \<longrightarrow>
      (\<exists>m1. create_unit_disjunct cfg (new_selector_block m) = Inr m1 \<and>
         selector_block m1 = Some [''unit_disjunction'' \<mapsto> DisjunctionC True []] \<and>
         add_units_to_disjunct cfg m1 = Inr m1) \<and>
      (unit_disjunct_inlet cfg = [] \<and> unit_disjunct_outlet cfg = [] \<longrightarrow>
         (\<exists>m'. build cfg m = Inr m'))) \<and>
   (\<forall>m1 e mf. create_unit_disjunct cfg (new_selector_block m) = Inr m1 \<and>
       add_units_to_disjunct cfg m1 = Inl (e, mf) \<longrightarrow> e = AttributeError \<or> e = ValueError) \<and>
   (\<forall>us1 u us2.
       unit_disjunct cfg = us1 @ u # us2 \<and>
       (\<forall>x\<in>set us1. parent_block m (ident x) \<noteq> NoParent \<and>
                     \<not> reserved (reserved_words m) (local_name x)) \<and>
       parent_block m (ident u) \<noteq> NoParent \<and> reserved (reserved_words m) (local_name u) \<longrightarrow>
      (\<exists>mf. build cfg m = Inl (ValueError, mf) \<and> parent_block mf (ident u) = NoParent))"
proof (intro conjI allI impI)
  fix m' e mf
  assume "create_unit_disjunct cfg m' = Inl (e, mf) \<or> add_units_to_disjunct cfg m' = Inl (e, mf)"
  then show "e \<noteq> ConfigurationError"
    by (auto simp: add_units_to_disjunct_def split: option.splits
        dest: create_unit_disjunct_Inl add_units_Inl)
next
  assume "unit_disjunct cfg = []"
  from build_no_candidates(1) [OF this]
  show "\<exists>m1. create_unit_disjunct cfg (new_selector_block m) = Inr m1 \<and>
         selector_block m1 = Some [''unit_disjunction'' \<mapsto> DisjunctionC True []] \<and>
         add_units_to_disjunct cfg m1 = Inr m1" .
next
  assume "unit_disjunct cfg = []" "unit_disjunct_inlet cfg = [] \<and> unit_disjunct_outlet cfg = []"
  with build_no_candidates(2) [of cfg m] show "\<exists>m'. build cfg m = Inr m'" by blast
next
  fix m1 e mf
  assume "create_unit_disjunct cfg (new_selector_block m) = Inr m1 \<and>
       add_units_to_disjunct cfg m1 = Inl (e, mf)"
  then show "e = AttributeError \<or> e = ValueError"
    using build_relocation_errors by blast
next
  fix us1 u us2
  assume "unit_disjunct cfg = us1 @ u # us2 \<and>
       (\<forall>x\<in>set us1. parent_block m (ident x) \<noteq> NoParent \<and>
                     \<not> reserved (reserved_words m) (local_name x)) \<and>
       parent_block m (ident u) \<noteq> NoParent \<and> reserved (reserved_words m) (local_name u)"
  then show "\<exists>mf. build cfg m = Inl (ValueError, mf) \<and> parent_block mf (ident u) = NoParent"
    by (intro build_reserved_name) blast+
qed

theorem build_candidate_errors_witness:
  "(\<exists>m'. build example_config_none example_model = Inr m') \<and>
   (\<exists>mf. build example_config_clash example_model = Inl (ValueError, mf) \<and>
      parent_block mf 1 = NoParent)"
proof -
  have n: "unit_disjunct example_config_none = []" "unit_disjunct_inlet example_config_none = []"
    "unit_disjunct_outlet example_config_none = []"
    by (simp_all add: example_config_none_def)
  let ?u = "\<lparr>ident = 1, local_name = ''indicator_var''\<rparr>"
  have c: "unit_disjunct example_config_clash = [] @ ?u # []"
    by (simp add: example_config_clash_def)
  have d: "reserved (reserved_words example_model) (local_name ?u)"
    by (simp add: example_model_def reserved_def arc_name_def example_reserved_def)
  have p: "parent_block example_model (ident ?u) \<noteq> NoParent"
    by (simp add: example_model_def)
  from build_candidate_errors [of example_config_none example_model] n
  have 1: "\<exists>m'. build example_config_none example_model = Inr m'" by simp
  from build_candidate_errors [of example_config_clash example_model,
      THEN conjunct2, THEN conjunct2, THEN conjunct2, THEN spec, THEN spec, THEN spec,
      of "[]" ?u "[]"] c d p
  have 2: "\<exists>mf. build example_config_clash example_model = Inl (ValueError, mf) \<and>
      parent_block mf 1 = NoParent"
    by simp
  from 1 2 show ?thesis by blast
qed

subsection \<open>Building twice\<close>

lemma rebuild_relocates:
  assumes "build cfg m = Inr m1"
  obtains ma mb where
    "create_unit_disjunct cfg (new_selector_block m1) = Inr ma"
    "add_units_to_disjunct cfg ma = Inr mb"
    "ports mb = ports m1"
    "\<exists>sb. selector_block mb = Some sb \<and> one_of_N (length (unit_disjunct cfg)) sb"
    "no_edges mb"
proof -
  let ?N = "length (unit_disjunct cfg)"
  have sb0: "selector_block (new_selector_block m1) = Some Map.empty"
    by (simp add: new_selector_block_def)
  from create_unit_disjunct_fresh [OF sb0, of cfg] obtain ma sb where
    ma: "create_unit_disjunct cfg (new_selector_block m1) = Inr ma"
      "selector_block ma = Some sb" "one_of_N ?N sb"
    using one_of_N_fresh [of ?N "Disjunct (reserved_words (new_selector_block m1))"] by auto
  note c = create_fresh [OF ma(1)]
  note b = build_rest [OF assms]
  have "\<forall>u\<in>set (unit_disjunct cfg). parent_block ma (ident u) \<noteq> NoParent \<and>
          \<not> reserved (reserved_words ma) (local_name u)"
  proof
    fix u assume u: "u \<in> set (unit_disjunct cfg)"
    with b(3) obtain n where "parent_block m1 (ident u) = Branch n" by blast
    with c(3) [of "ident u"] have "parent_block ma (ident u) = Orphaned" by simp
    with b(1,2) u c(2) show "parent_block ma (ident u) \<noteq> NoParent \<and>
          \<not> reserved (reserved_words ma) (local_name u)" by simp
  qed
  from add_units_succeeds [OF c(1) this] obtain mb where
    mb: "add_units 0 (unit_disjunct cfg) ma = Inr mb" by blast
  with c(5) have r: "add_units_to_disjunct cfg ma = Inr mb"
    by (auto simp: add_units_to_disjunct_def)
  from add_units_frame [OF mb] c(4) have p: "ports mb = ports m1" by simp
  from shape_add_units [OF mb] have sh: "shape mb = shape ma" .
  with ma(2) obtain sb' where sb': "selector_block mb = Some sb'"
    by (auto simp: shape_def)
  with sh ma(2) have "map_option kind (sb' n) = map_option kind (sb n)" for n
    by (auto simp: shape_def fun_eq_iff)
  from one_of_N_cong [OF this ma(3)] sb'
  have o: "\<exists>sb. selector_block mb = Some sb \<and> one_of_N ?N sb" by blast
  have "no_edges ma" using sb0 ma(1) by (rule no_edges_create)
  with mb have "no_edges mb" by (rule no_edges_add_units)
  with ma(1) r p o show ?thesis by (rule that)
qed

lemma rebuild_ports_taken:
  assumes b: "build cfg m = Inr m1" and c: "construct_ports cfg"
    and some: "unit_disjunct_inlet cfg \<noteq> [] \<or> unit_disjunct_outlet cfg \<noteq> []"
  shows "\<exists>mf. build cfg m1 = Inl (RuntimeError, mf) \<and> ports mf = ports m1 \<and>
           (\<exists>sb. selector_block mf = Some sb \<and> one_of_N (length (unit_disjunct cfg)) sb) \<and>
           no_edges mf"
proof -
  from b obtain ma mb where
    s: "create_unit_disjunct cfg (new_selector_block m1) = Inr ma"
      "add_units_to_disjunct cfg ma = Inr mb"
      "ports mb = ports m1"
      "\<exists>sb. selector_block mb = Some sb \<and> one_of_N (length (unit_disjunct cfg)) sb"
      "no_edges mb"
    by (rule rebuild_relocates)
  have taken: "ports mb p \<noteq> None"
    if "p \<in> set (create_inlet_list cfg) \<union> set (create_outlet_list cfg)" for p
    using build_rest(4) [OF b c that] by (simp add: s(3))
  have "create_inlet_list cfg = [] \<longleftrightarrow> unit_disjunct_inlet cfg = []"
    "create_outlet_list cfg = [] \<longleftrightarrow> unit_disjunct_outlet cfg = []"
    by (cases "unit_disjunct_inlet cfg"; simp add: create_inlet_list_def)
      (cases "unit_disjunct_outlet cfg"; simp add: create_outlet_list_def)
  with some have "create_inlet_list cfg \<noteq> [] \<or> create_outlet_list cfg \<noteq> []"
    by blast
  from build_ports_taken [OF c taken this] obtain mf where
    mf: "build_ports cfg mb = Inl (RuntimeError, mf)" "ports mf = ports mb"
      "selector_block mf = selector_block mb"
    by blast
  from s(1,2) mf(1) have "build cfg m1 = Inl (RuntimeError, mf)"
    by (simp add: build_def super_build_def)
  moreover from s(5) have "no_edges mf" by (rule no_edges_cong [OF mf(3)])
  ultimately show ?thesis using mf(2,3) s(3,4) by auto
qed

lemma rebuild_no_index:
  assumes b: "build cfg m = Inr m1"
    and none: "unit_disjunct_inlet cfg = []" "unit_disjunct_outlet cfg = []"
  shows "\<exists>m2. build cfg m1 = Inr m2"
proof -
  from b obtain ma mb where
    s: "create_unit_disjunct cfg (new_selector_block m1) = Inr ma"
      "add_units_to_disjunct cfg ma = Inr mb"
    by (rule rebuild_relocates)
  with none show ?thesis
    by (simp add: build_def super_build_def build_ports_unfold
        create_inlet_list_def create_outlet_list_def
        arc_selector_inlet_to_unit_def arc_unit_outlet_to_selector_def Let_def)
qed

text \<open>
  A second \<open>build\<close> on the structure the first one returned fails with \<open>RuntimeError\<close>, which
  is neither of the two errors; with no index declared it returns.
\<close>

theorem build_twice_counterexample:
  "(case build example_config example_model of
      Inl _ \<Rightarrow> False
    | Inr m1 \<Rightarrow> (case build example_config m1 of Inl (e, mf) \<Rightarrow> e = RuntimeError | Inr _ \<Rightarrow> False)) \<and>
   (case build example_config_none example_model of
      Inl _ \<Rightarrow> False
    | Inr m1 \<Rightarrow> (case build example_config_none m1 of Inl _ \<Rightarrow> False | Inr _ \<Rightarrow> True))"
proof -
  from example_build obtain m1 where m1: "build example_config example_model = Inr m1" ..
  have "construct_ports example_config" "unit_disjunct_inlet example_config \<noteq> []"
    by (simp_all add: example_config_def)
  with rebuild_ports_taken [OF m1] obtain mf where
    "build example_config m1 = Inl (RuntimeError, mf)" by blast
  with m1 have 1: "case build example_config example_model of
      Inl _ \<Rightarrow> False
    | Inr m1 \<Rightarrow> (case build example_config m1 of Inl (e, mf) \<Rightarrow> e = RuntimeError | Inr _ \<Rightarrow> False)"
    by simp
  from example_none_build obtain n1 where
    n1: "build example_config_none example_model = Inr n1" ..
  have "unit_disjunct_inlet example_config_none = []" "unit_disjunct_outlet example_config_none = []"
    by (simp_all add: example_config_none_def)
  from rebuild_no_index [OF n1 this] obtain n2 where "build example_config_none n1 = Inr n2" ..
  with n1 have 2: "case build example_config_none example_model of
      Inl _ \<Rightarrow> False
    | Inr m1 \<Rightarrow> (case build example_config_none m1 of Inl _ \<Rightarrow> False | Inr _ \<Rightarrow> True)"
    by simp
  from 1 2 show ?thesis ..
qed

text \<open>
  C8, as the code has it. \<open>build\<close> has no guard against a second call. On a structure that a
  first \<open>build\<close> returned, a second \<open>build\<close> with the same configuration replaces the selector
  block by a new one with exactly the \<open>N\<close> branches and their disjunction, moves the
  candidates into them and replaces the state blocks. Then, when ports are constructed and
  an inlet or outlet index is declared, it fails with the \<open>RuntimeError\<close> of \<open>add_port\<close>, the
  name of the first port being taken: no port and no edge has been added. When no index is
  declared it returns. Whenever it returns, the branches are exactly \<open>N\<close>, the edges are as
  many as the lists have elements, and the ports and state blocks are those of the first
  build.
\<close>

theorem build_twice:
  assumes "build cfg m = Inr m1"
  shows "(construct_ports cfg \<and> (unit_disjunct_inlet cfg \<noteq> [] \<or> unit_disjunct_outlet cfg \<noteq> []) \<longrightarrow>
            (\<exists>mf. build cfg m1 = Inl (RuntimeError, mf) \<and> ports mf = ports m1 \<and>
               (\<exists>sb. selector_block mf = Some sb \<and> one_of_N (length (unit_disjunct cfg)) sb) \<and>
               no_edges mf)) \<and>
         (unit_disjunct_inlet cfg = [] \<and> unit_disjunct_outlet cfg = [] \<longrightarrow>
            (\<exists>m2. build cfg m1 = Inr m2)) \<and>
         (\<forall>m2. build cfg m1 = Inr m2 \<longrightarrow>
            (\<exists>sb. selector_block m2 = Some sb \<and> one_of_N (length (unit_disjunct cfg)) sb) \<and>
            card (dom (edges m2)) =
              (\<Sum>(k, L)\<leftarrow>unit_disjunct_inlet cfg. length L) +
              (\<Sum>(k, L)\<leftarrow>unit_disjunct_outlet cfg. length L) \<and>
            ports m2 = ports m1 \<and> state_blocks m2 = state_blocks m1)"
proof (intro conjI allI impI; (elim conjE)?)
  assume "construct_ports cfg" "unit_disjunct_inlet cfg \<noteq> [] \<or> unit_disjunct_outlet cfg \<noteq> []"
  from rebuild_ports_taken [OF assms this]
  show "\<exists>mf. build cfg m1 = Inl (RuntimeError, mf) \<and> ports mf = ports m1 \<and>
               (\<exists>sb. selector_block mf = Some sb \<and> one_of_N (length (unit_disjunct cfg)) sb) \<and>
               no_edges mf" .
next
  assume "unit_disjunct_inlet cfg = []" "unit_disjunct_outlet cfg = []"
  from rebuild_no_index [OF assms this] show "\<exists>m2. build cfg m1 = Inr m2" .
next
  fix m2 assume b: "build cfg m1 = Inr m2"
  from build_one_of_N [OF b]
  show "\<exists>sb. selector_block m2 = Some sb \<and> one_of_N (length (unit_disjunct cfg)) sb" .
  from build_edge_count [OF b]
  show "card (dom (edges m2)) =
        (\<Sum>(k, L)\<leftarrow>unit_disjunct_inlet cfg. length L) +
        (\<Sum>(k, L)\<leftarrow>unit_disjunct_outlet cfg. length L)" .
  from build_twice_ports [OF assms b] show "ports m2 = ports m1" "state_blocks m2 = state_blocks m1" .
qed

theorem build_twice_witness:
  "(\<exists>m1 mf. build example_config example_model = Inr m1 \<and>
      build example_config m1 = Inl (RuntimeError, mf) \<and> ports mf = ports m1 \<and>
      (\<exists>sb. selector_block mf = Some sb \<and> one_of_N 2 sb) \<and> no_edges mf) \<and>
   (\<exists>m1 m2. build example_config_none example_model = Inr m1 \<and>
      build example_config_none m1 = Inr m2 \<and>
      (\<exists>sb. selector_block m2 = Some sb \<and> one_of_N 0 sb) \<and>
      card (dom (edges m2)) = 0 \<and> ports m2 = ports m1 \<and> state_blocks m2 = state_blocks m1)"
proof -
  from example_build obtain m1 where m1: "build example_config example_model = Inr m1" ..
  have c: "construct_ports example_config" "unit_disjunct_inlet example_config \<noteq> []"
    "length (unit_disjunct example_config) = 2"
    by (simp_all add: example_config_def example_units_def)
  from build_twice [OF m1] c
  have 1: "\<exists>mf. build example_config m1 = Inl (RuntimeError, mf) \<and> ports mf = ports m1 \<and>
      (\<exists>sb. selector_block mf = Some sb \<and> one_of_N 2 sb) \<and> no_edges mf"
    by simp
  from example_none_build obtain n1 where
    n1: "build example_config_none example_model = Inr n1" ..
  have n: "unit_disjunct_inlet example_config_none = []" "unit_disjunct_outlet example_config_none = []"
    "length (unit_disjunct example_config_none) = 0"
    by (simp_all add: example_config_none_def)
  note t = build_twice [OF n1]
  from t n obtain n2 where n2: "build example_config_none n1 = Inr n2" by auto
  with t n have "(\<exists>sb. selector_block n2 = Some sb \<and> one_of_N 0 sb) \<and>
      card (dom (edges n2)) = 0 \<and> ports n2 = ports n1 \<and> state_blocks n2 = state_blocks n1"
    by simp
  with m1 1 n1 n2 show ?thesis by blast
qed

subsection \<open>Two fan-out lists\<close>

lemma build_before_wiring:
  "build cfg m =
     (case before_wiring cfg m of
        Inl e \<Rightarrow> Inl e
      | Inr m3 \<Rightarrow>
     (case arc_selector_inlet_to_unit cfg m3 of
        Inl e \<Rightarrow> Inl e
      | Inr m4 \<Rightarrow>
     (case arc_unit_outlet_to_selector cfg m4 of
        Inl e \<Rightarrow> Inl e
      | Inr m5 \<Rightarrow> Inr (expand_arcs m5))))"
  by (simp add: build_def before_wiring_def split: sum.splits)

lemma before_wiring_ports:
  assumes "before_wiring cfg m = Inr m3" "construct_ports cfg" "1 \<le> k"
  shows "k \<le> length (unit_disjunct_inlet cfg) \<Longrightarrow> ports m3 (''inlet_'' @ str_nat k) \<noteq> None"
    and "k \<le> length (unit_disjunct_outlet cfg) \<Longrightarrow> ports m3 (''outlet_'' @ str_nat k) \<noteq> None"
proof -
  from assms(1) obtain m2 where b: "build_ports cfg m2 = Inr m3"
    by (auto simp: before_wiring_def split: sum.splits)
  {
    assume "k \<le> length (unit_disjunct_inlet cfg)"
    with assms(3) have "''inlet_'' @ str_nat k \<in> set (create_inlet_list cfg)"
      by (auto simp: create_inlet_list_def)
    with build_ports_rest(3) [OF b assms(2)]
    show "ports m3 (''inlet_'' @ str_nat k) \<noteq> None" by blast
  next
    assume "k \<le> length (unit_disjunct_outlet cfg)"
    with assms(3) have "''outlet_'' @ str_nat k \<in> set (create_outlet_list cfg)"
      by (auto simp: create_outlet_list_def)
    with build_ports_rest(3) [OF b assms(2)]
    show "ports m3 (''outlet_'' @ str_nat k) \<noteq> None" by blast
  }
qed

lemma first_fan_out_edge:
  assumes "wire_items w (pre @ (k1, L1) # mid) m = Inr m1" "1 < length L1"
  shows "edges m1 (''unit_disjunct_1'', arc_prefix w @ ''1'') \<noteq> None"
proof -
  have one: "str_nat (Suc 0) = ''1''" by (simp add: str_nat.simps digit_def)
  from assms(1) obtain ma mb where b: "wire_index w (k1, L1) ma = Inr mb"
    and c: "wire_items w mid mb = Inr m1"
    by (auto simp: wire_items_append split: sum.splits)
  have "0 < length L1" using assms(2) by (cases L1) simp_all
  from wire_index_edges(5) [OF b assms(2) this]
  have "\<exists>a. edges mb (''unit_disjunct_1'', arc_prefix w @ ''1'') = Some a"
    by (simp add: one)
  then obtain a where "edges mb (''unit_disjunct_1'', arc_prefix w @ ''1'') = Some a" ..
  from wire_items_keeps [OF c this] show ?thesis by simp
qed

lemma wire_items_prefix_fails:
  assumes "wire_items w xs m = Inl x"
  shows "wire_items w (xs @ ys) m = Inl x"
  using assms by (simp add: wire_items_append)

lemma wire_items_reaches_second:
  assumes "wire_items w (pre @ (k1, L1) # mid) m = Inr m1" "1 < length L1" "1 < length L2"
    and "\<And>s. arc_name (arc_prefix w @ s)"
  shows "wire_items w (pre @ (k1, L1) # mid @ (k2, L2) # post) m =
           Inl (if ports m1 (port_prefix w @ str_nat k2) = None then AttributeError
                else RuntimeError, m1)"
  using second_fan_out_fails [OF assms(1,2,3,4), of k2] assms(1)
    wire_items_append [of w "pre @ (k1, L1) # mid" "(k2, L2) # post" m]
  by simp

text \<open>
  Two fan-out lists at the inlet, the first longer than the number of branches: \<open>build\<close>
  fails with \<open>AttributeError\<close>, on the branch that is missing, before the second index is
  reached.
\<close>

theorem two_fan_out_lists_fail_counterexample:
  "(case build example_config_two_long example_model of
      Inl (e, mf) \<Rightarrow> e = AttributeError
    | Inr _ \<Rightarrow> False)"
  by (simp add: build_def super_build_def new_selector_block_def create_unit_disjunct_def
      example_config_two_long_def example_eval add_units_to_disjunct_def
      build_ports_def create_inlet_list_def create_outlet_list_def add_port_state_block_def
      add_port_objects_def add_port_def del_from_parent_def orphan_def upt_rec)

text \<open>
  C10, as the code has it. When two inlet indices (or two outlet indices) both have a list
  longer than 1, the wiring fails from any model, and so does \<open>build\<close>. If the wiring of
  \<open>build\<close> fails before it reaches the second of them, \<open>build\<close> fails with that earlier error.
  If it reaches the second, branch 1 already holds an edge under the name
  \<open>inlet_to_unit_arc_1\<close> (\<open>unit_to_outlet_arc_1\<close>) and \<open>build\<close> fails there, the model being as
  it was when the index was reached: with \<open>AttributeError\<close> when the selector port of the
  index is missing, and otherwise with the \<open>RuntimeError\<close> of \<open>add_component\<close> for the
  duplicate name; the port exists when ports are constructed and the index is one of
  \<open>1 .. number of indices\<close>.
\<close>

theorem two_fan_out_lists_fail:
  "(unit_disjunct_inlet cfg = pre @ (k1, L1) # mid @ (k2, L2) # post \<and>
    1 < length L1 \<and> 1 < length L2 \<longrightarrow>
      (\<exists>x. arc_selector_inlet_to_unit cfg m = Inl x) \<and>
      (\<exists>x. build cfg m0 = Inl x) \<and>
      (\<forall>m3. before_wiring cfg m0 = Inr m3 \<longrightarrow>
         (\<forall>x. arc_selector_inlet_to_unit (cfg\<lparr>unit_disjunct_inlet := pre @ (k1, L1) # mid\<rparr>) m3 = Inl x \<longrightarrow>
            build cfg m0 = Inl x) \<and>
         (\<forall>m1. arc_selector_inlet_to_unit (cfg\<lparr>unit_disjunct_inlet := pre @ (k1, L1) # mid\<rparr>) m3 = Inr m1 \<longrightarrow>
            edges m1 (''unit_disjunct_1'', ''inlet_to_unit_arc_1'') \<noteq> None \<and>
            build cfg m0 =
              Inl (if ports m1 (''inlet_'' @ str_nat k2) = None then AttributeError
                   else RuntimeError, m1) \<and>
            (construct_ports cfg \<and> 1 \<le> k2 \<and> k2 \<le> length (unit_disjunct_inlet cfg) \<longrightarrow>
               build cfg m0 = Inl (RuntimeError, m1))))) \<and>
   (unit_disjunct_outlet cfg = pre @ (k1, L1) # mid @ (k2, L2) # post \<and>
    1 < length L1 \<and> 1 < length L2 \<longrightarrow>
      (\<exists>x. arc_unit_outlet_to_selector cfg m = Inl x) \<and>
      (\<exists>x. build cfg m0 = Inl x) \<and>
      (\<forall>m3 m4. before_wiring cfg m0 = Inr m3 \<and> arc_selector_inlet_to_unit cfg m3 = Inr m4 \<longrightarrow>
         (\<forall>x. arc_unit_outlet_to_selector (cfg\<lparr>unit_disjunct_outlet := pre @ (k1, L1) # mid\<rparr>) m4 = Inl x \<longrightarrow>
            build cfg m0 = Inl x) \<and>
         (\<forall>m1. arc_unit_outlet_to_selector (cfg\<lparr>unit_disjunct_outlet := pre @ (k1, L1) # mid\<rparr>) m4 = Inr m1 \<longrightarrow>
            edges m1 (''unit_disjunct_1'', ''unit_to_outlet_arc_1'') \<noteq> None \<and>
            build cfg m0 =
              Inl (if ports m1 (''outlet_'' @ str_nat k2) = None then AttributeError
                   else RuntimeError, m1) \<and>
            (construct_ports cfg \<and> 1 \<le> k2 \<and> k2 \<le> length (unit_disjunct_outlet cfg) \<longrightarrow>
               build cfg m0 = Inl (RuntimeError, m1)))))"
proof (intro conjI impI allI; (elim conjE)?)
  assume h: "unit_disjunct_inlet cfg = pre @ (k1, L1) # mid @ (k2, L2) # post"
    "1 < length L1" "1 < length L2"
  have f: "\<exists>x. arc_selector_inlet_to_unit cfg m = Inl x" for m
    unfolding arc_selector_inlet_to_unit_def
    by (rule wire_items_two_fan_out [OF h]) simp
  from f show "\<exists>x. arc_selector_inlet_to_unit cfg m = Inl x" .
  from f show "\<exists>x. build cfg m0 = Inl x" by (rule build_Inl_inlet)
  fix m3 assume b: "before_wiring cfg m0 = Inr m3"
  have i: "arc_selector_inlet_to_unit cfg m3 =
      wire_items inlet_wiring ((pre @ (k1, L1) # mid) @ (k2, L2) # post) m3"
    by (simp add: arc_selector_inlet_to_unit_def h(1))
  {
    fix x
    assume "arc_selector_inlet_to_unit (cfg\<lparr>unit_disjunct_inlet := pre @ (k1, L1) # mid\<rparr>) m3 = Inl x"
    then have "wire_items inlet_wiring (pre @ (k1, L1) # mid) m3 = Inl x"
      by (simp add: arc_selector_inlet_to_unit_def)
    from wire_items_prefix_fails [OF this] have "arc_selector_inlet_to_unit cfg m3 = Inl x"
      unfolding i .
    with b show "build cfg m0 = Inl x" by (simp add: build_before_wiring)
  next
    fix m1
    assume "arc_selector_inlet_to_unit (cfg\<lparr>unit_disjunct_inlet := pre @ (k1, L1) # mid\<rparr>) m3 = Inr m1"
    then have r: "wire_items inlet_wiring (pre @ (k1, L1) # mid) m3 = Inr m1"
      by (simp add: arc_selector_inlet_to_unit_def)
    from first_fan_out_edge [OF r h(2)]
    show "edges m1 (''unit_disjunct_1'', ''inlet_to_unit_arc_1'') \<noteq> None"
      by (simp add: inlet_wiring_def)
    from wire_items_reaches_second [OF r h(2,3) arc_name_inlet_wiring, of k2 post]
    have w: "arc_selector_inlet_to_unit cfg m3 =
        Inl (if ports m1 (''inlet_'' @ str_nat k2) = None then AttributeError else RuntimeError, m1)"
      unfolding i by (simp add: inlet_wiring_def)
    with b show e: "build cfg m0 =
        Inl (if ports m1 (''inlet_'' @ str_nat k2) = None then AttributeError else RuntimeError, m1)"
      by (simp add: build_before_wiring)
    assume "construct_ports cfg" "1 \<le> k2" "k2 \<le> length (unit_disjunct_inlet cfg)"
    from before_wiring_ports(1) [OF b this] ports_wire_items [OF r]
    have "ports m1 (''inlet_'' @ str_nat k2) \<noteq> None" by simp
    with e show "build cfg m0 = Inl (RuntimeError, m1)" by simp
  }
next
  assume h: "unit_disjunct_outlet cfg = pre @ (k1, L1) # mid @ (k2, L2) # post"
    "1 < length L1" "1 < length L2"
  have f: "\<exists>x. arc_unit_outlet_to_selector cfg m = Inl x" for m
    unfolding arc_unit_outlet_to_selector_def
    by (rule wire_items_two_fan_out [OF h]) simp
  from f show "\<exists>x. arc_unit_outlet_to_selector cfg m = Inl x" .
  from f show "\<exists>x. build cfg m0 = Inl x" by (rule build_Inl_outlet)
  fix m3 m4
  assume b: "before_wiring cfg m0 = Inr m3" and a: "arc_selector_inlet_to_unit cfg m3 = Inr m4"
  have i: "arc_unit_outlet_to_selector cfg m4 =
      wire_items outlet_wiring ((pre @ (k1, L1) # mid) @ (k2, L2) # post) m4"
    by (simp add: arc_unit_outlet_to_selector_def h(1))
  {
    fix x
    assume "arc_unit_outlet_to_selector (cfg\<lparr>unit_disjunct_outlet := pre @ (k1, L1) # mid\<rparr>) m4 = Inl x"
    then have "wire_items outlet_wiring (pre @ (k1, L1) # mid) m4 = Inl x"
      by (simp add: arc_unit_outlet_to_selector_def)
    from wire_items_prefix_fails [OF this] have "arc_unit_outlet_to_selector cfg m4 = Inl x"
      unfolding i .
    with b a show "build cfg m0 = Inl x" by (simp add: build_before_wiring)
  next
    fix m1
    assume "arc_unit_outlet_to_selector (cfg\<lparr>unit_disjunct_outlet := pre @ (k1, L1) # mid\<rparr>) m4 = Inr m1"
    then have r: "wire_items outlet_wiring (pre @ (k1, L1) # mid) m4 = Inr m1"
      by (simp add: arc_unit_outlet_to_selector_def)
    from first_fan_out_edge [OF r h(2)]
    show "edges m1 (''unit_disjunct_1'', ''unit_to_outlet_arc_1'') \<noteq> None"
      by (simp add: outlet_wiring_def)
    from wire_items_reaches_second [OF r h(2,3) arc_name_outlet_wiring, of k2 post]
    have w: "arc_unit_outlet_to_selector cfg m4 =
        Inl (if ports m1 (''outlet_'' @ str_nat k2) = None then AttributeError else RuntimeError, m1)"
      unfolding i by (simp add: outlet_wiring_def)
    with b a show e: "build cfg m0 =
        Inl (if ports m1 (''outlet_'' @ str_nat k2) = None then AttributeError else RuntimeError, m1)"
      by (simp add: build_before_wiring)
    assume "construct_ports cfg" "1 \<le> k2" "k2 \<le> length (unit_disjunct_outlet cfg)"
    from before_wiring_ports(2) [OF b this] ports_wire_items [OF r]
      ports_wire_items [OF a [unfolded arc_selector_inlet_to_unit_def]]
    have "ports m1 (''outlet_'' @ str_nat k2) \<noteq> None" by simp
    with e show "build cfg m0 = Inl (RuntimeError, m1)" by simp
  }
qed

lemma example_two_reached:
  "\<exists>m3 m1. before_wiring example_config_two example_model = Inr m3 \<and>
     arc_selector_inlet_to_unit
       (example_config_two\<lparr>unit_disjunct_inlet := [] @ (1, [''R1.inlet'', ''R2.inlet'']) # []\<rparr>) m3 = Inr m1"
  "\<exists>m3 m4 m1. before_wiring example_config_two_outlets example_model = Inr m3 \<and>
     arc_selector_inlet_to_unit example_config_two_outlets m3 = Inr m4 \<and>
     arc_unit_outlet_to_selector
       (example_config_two_outlets\<lparr>unit_disjunct_outlet := [] @ (1, [''R1.outlet'', ''R2.outlet'']) # []\<rparr>) m4 = Inr m1"
  by (simp_all add: before_wiring_def super_build_def new_selector_block_def create_unit_disjunct_def
      example_config_two_def example_config_two_outlets_def example_eval add_units_to_disjunct_def
      build_ports_def create_inlet_list_def create_outlet_list_def add_port_state_block_def
      add_port_objects_def add_port_def del_from_parent_def orphan_def upt_rec)

theorem two_fan_out_lists_fail_witness:
  "(\<exists>m1. build example_config_two example_model = Inl (RuntimeError, m1) \<and>
      edges m1 (''unit_disjunct_1'', ''inlet_to_unit_arc_1'') \<noteq> None) \<and>
   (\<exists>m1. build example_config_two_outlets example_model = Inl (RuntimeError, m1) \<and>
      edges m1 (''unit_disjunct_1'', ''unit_to_outlet_arc_1'') \<noteq> None)"
proof -
  let ?I1 = "[''R1.inlet'', ''R2.inlet'']" and ?I2 = "[''R1.inlet2'', ''R2.inlet2'']"
  let ?O1 = "[''R1.outlet'', ''R2.outlet'']" and ?O2 = "[''R1.outlet2'', ''R2.outlet2'']"
  have i: "unit_disjunct_inlet example_config_two = [] @ (1, ?I1) # [] @ (2, ?I2) # []"
    "construct_ports example_config_two" "length (unit_disjunct_inlet example_config_two) = 2"
    by (simp_all add: example_config_two_def example_config_def)
  have o: "unit_disjunct_outlet example_config_two_outlets = [] @ (1, ?O1) # [] @ (2, ?O2) # []"
    "construct_ports example_config_two_outlets"
    "length (unit_disjunct_outlet example_config_two_outlets) = 2"
    by (simp_all add: example_config_two_outlets_def example_config_def)
  from example_two_reached(1) obtain m3 m1 where
    a: "before_wiring example_config_two example_model = Inr m3"
      "arc_selector_inlet_to_unit
         (example_config_two\<lparr>unit_disjunct_inlet := [] @ (1, ?I1) # []\<rparr>) m3 = Inr m1"
    by blast
  from example_two_reached(2) obtain n3 n4 n1 where
    b: "before_wiring example_config_two_outlets example_model = Inr n3"
      "arc_selector_inlet_to_unit example_config_two_outlets n3 = Inr n4"
      "arc_unit_outlet_to_selector
         (example_config_two_outlets\<lparr>unit_disjunct_outlet := [] @ (1, ?O1) # []\<rparr>) n4 = Inr n1"
    by blast
  have l: "1 < length ?I1" "1 < length ?I2" "1 < length ?O1" "1 < length ?O2" by simp_all
  have k: "construct_ports example_config_two \<and> 1 \<le> (2::nat) \<and>
      2 \<le> length (unit_disjunct_inlet example_config_two)"
    "construct_ports example_config_two_outlets \<and> 1 \<le> (2::nat) \<and>
      2 \<le> length (unit_disjunct_outlet example_config_two_outlets)"
    using i o by simp_all
  note t1 = two_fan_out_lists_fail [of example_config_two "[]" 1 ?I1 "[]" 2 ?I2 "[]"
      example_model example_model, THEN conjunct1, THEN mp, OF conjI [OF i(1) conjI [OF l(1,2)]],
      THEN conjunct2, THEN conjunct2, THEN spec, THEN mp, OF a(1),
      THEN conjunct2, THEN spec, THEN mp, OF a(2)]
  from t1 [THEN conjunct1] t1 [THEN conjunct2, THEN conjunct2, THEN mp, OF k(1)]
  have 1: "build example_config_two example_model = Inl (RuntimeError, m1) \<and>
      edges m1 (''unit_disjunct_1'', ''inlet_to_unit_arc_1'') \<noteq> None"
    by blast
  note t2 = two_fan_out_lists_fail [of example_config_two_outlets "[]" 1 ?O1 "[]" 2 ?O2 "[]"
      example_model example_model, THEN conjunct2, THEN mp, OF conjI [OF o(1) conjI [OF l(3,4)]],
      THEN conjunct2, THEN conjunct2, THEN spec, THEN spec, THEN mp, OF conjI [OF b(1,2)],
      THEN conjunct2, THEN spec, THEN mp, OF b(3)]
  from t2 [THEN conjunct1] t2 [THEN conjunct2, THEN conjunct2, THEN mp, OF k(2)]
  have 2: "build example_config_two_outlets example_model = Inl (RuntimeError, n1) \<and>
      edges n1 (''unit_disjunct_1'', ''unit_to_outlet_arc_1'') \<noteq> None"
    by blast
  from 1 2 show ?thesis by blast
qed

section \<open>Initialization\<close>





lemma propagate_state_cases:
  "propagate_state c st =
     (case c of ArcC a \<Rightarrow> (None, st\<lparr>var_values := (var_values st)(destination a := var_values st (source a))\<rparr>)
      | _ \<Rightarrow> (Some RuntimeError, st))"
  by (simp add: propagate_state_def)

lemma propagate_state_error: "propagate_state c st = (Some e, st1) \<Longrightarrow> e = RuntimeError"
  by (auto simp: propagate_state_def split: component.splits)

lemma initialize_block_error:
  "initialize_block ui c kw st = (Some e, st2) \<Longrightarrow>
   e = AttributeError \<or> (\<exists>u vs. fst (ui u kw vs) = Some e)"
  by (auto simp: initialize_block_def split: component.splits prod.splits) (metis fst_conv)

lemma initialize_units_errors:
  "fst (initialize_units ui kw m i us st) = Some e \<Longrightarrow>
   e = AttributeError \<or> e = RuntimeError \<or> (\<exists>u vs. fst (ui u kw vs) = Some e)"
proof (induction us arbitrary: i st)
  case Nil
  then show ?case by simp
next
  case (Cons u us)
  let ?D = "''unit_disjunct_'' @ str_nat (i + 1)"
  show ?case
  proof (cases "get_disjunct m ?D")
    case (Inl x)
    with Cons.prems show ?thesis
      by (auto simp: initialize_units.simps(2) dest: get_disjunct_Inl)
  next
    case (Inr d)
    show ?thesis
    proof (cases "d (local_name u)")
      case None
      with Inr Cons.prems show ?thesis by (simp add: initialize_units.simps(2) getattr_def)
    next
      case (Some unit_block)
      show ?thesis
      proof (cases "d (''inlet_to_unit_arc_'' @ str_nat (i + 1))")
        case None
        with Inr Some Cons.prems show ?thesis by (simp add: initialize_units.simps(2) getattr_def)
      next
        case ia: (Some inlet_arc)
        obtain r1 st1 where p: "propagate_state inlet_arc st = (r1, st1)"
          by (cases "propagate_state inlet_arc st")
        show ?thesis
        proof (cases r1)
          case (Some e1)
          with Inr \<open>d (local_name u) = Some unit_block\<close> ia p Cons.prems
          show ?thesis
            by (auto simp: initialize_units.simps(2) getattr_def dest: propagate_state_error)
        next
          case None
          obtain r2 st2 where b: "initialize_block ui unit_block kw st1 = (r2, st2)"
            by (cases "initialize_block ui unit_block kw st1")
          show ?thesis
          proof (cases r2)
            case (Some e2)
            with Inr \<open>d (local_name u) = Some unit_block\<close> ia p \<open>r1 = None\<close> b Cons.prems
            have "e = e2" by (simp add: initialize_units.simps(2) getattr_def)
            with b Some initialize_block_error [of ui unit_block kw st1 e st2] show ?thesis by blast
          next
            case r2: None
            show ?thesis
            proof (cases "d (''unit_to_outlet_arc_'' @ str_nat (i + 1))")
              case None
              with Inr \<open>d (local_name u) = Some unit_block\<close> ia p \<open>r1 = None\<close> b r2 Cons.prems
              show ?thesis by (simp add: initialize_units.simps(2) getattr_def)
            next
              case (Some outlet_arc)
              with Inr \<open>d (local_name u) = Some unit_block\<close> ia p \<open>r1 = None\<close> b r2 Cons.prems
              have "fst (initialize_units ui kw m (i + 1) us st2) = Some e"
                by (simp add: initialize_units.simps(2) getattr_def)
              from Cons.IH [OF this] show ?thesis .
            qed
          qed
        qed
      qed
    qed
  qed
qed

lemma initialize_units_append:
  "initialize_units ui kw m i (us1 @ us2) st =
     (case initialize_units ui kw m i us1 st of
        (None, st1) \<Rightarrow> initialize_units ui kw m (i + length us1) us2 st1
      | (Some e, st1) \<Rightarrow> (Some e, st1))"
proof (induction us1 arbitrary: i st)
  case Nil
  then show ?case by simp
next
  case (Cons u us1)
  have len: "i + length (u # us1) = i + 1 + length us1" by simp
  have "initialize_units ui kw m (i + 1) (us1 @ us2) st' =
     (case initialize_units ui kw m (i + 1) us1 st' of
        (None, st1) \<Rightarrow> initialize_units ui kw m (i + length (u # us1)) us2 st1
      | (Some e, st1) \<Rightarrow> (Some e, st1))" for st'
    unfolding len by (rule Cons.IH)
  then show ?case
    by (simp add: initialize_units.simps(2) split: sum.splits option.splits prod.splits)
qed

lemma initialize_units_no_inlet:
  assumes "get_disjunct m (''unit_disjunct_'' @ str_nat (i + 1)) = Inr d"
    and "d (''inlet_to_unit_arc_'' @ str_nat (i + 1)) = None"
  shows "initialize_units ui kw m i (u # us) st = (Some AttributeError, st)"
  using assms by (simp add: initialize_units.simps(2) getattr_def split: option.splits)

lemma initialize_units_no_outlet:
  assumes "get_disjunct m (''unit_disjunct_'' @ str_nat (i + 1)) = Inr d"
    and "d (local_name u) = Some (UnitBlock u')"
    and "d (''inlet_to_unit_arc_'' @ str_nat (i + 1)) = Some (ArcC a)"
    and "ui u' kw ((var_values st)(destination a := var_values st (source a))) = (None, vs)"
    and "d (''unit_to_outlet_arc_'' @ str_nat (i + 1)) = None"
  shows "initialize_units ui kw m i (u # us) st =
           (Some AttributeError, \<lparr>var_values = vs, init_calls = init_calls st @ [(u', kw)]\<rparr>)"
  using assms
  by (simp add: initialize_units.simps(2) getattr_def propagate_state_def initialize_block_def)

text \<open>
  On the structure before any wiring, \<open>initialize\<close> fails with \<open>AttributeError\<close> and calls no
  candidate; with the inlet edges only, the first candidate is initialized and the missing
  outlet edge then raises \<open>AttributeError\<close>.
\<close>

theorem initialize_missing_edge_counterexample:
  "fst (initialize example_init_ok example_config [] example_ready example_state) =
     Some AttributeError \<and>
   (case arc_selector_inlet_to_unit example_config example_ready of
      Inl _ \<Rightarrow> False
    | Inr m \<Rightarrow>
        fst (initialize example_init_ok example_config [] m example_state) = Some AttributeError \<and>
        init_calls (snd (initialize example_init_ok example_config [] m example_state)) =
          [(\<lparr>ident = 1, local_name = ''R1''\<rparr>, [])])"
  by (simp add: initialize_def initialize_units.simps(2) example_eval propagate_state_def
      initialize_block_def example_init_ok_def example_state_def)

text \<open>
  C6, as the code has it. \<open>initialize\<close> raises no \<open>BurntToast\<close> of its own: an error it raises is an
  \<open>AttributeError\<close>, a \<open>RuntimeError\<close> or the error of a candidate. When the candidates before
  branch \<open>i\<close> have been initialized and branch \<open>i\<close> has nothing under \<open>inlet_to_unit_arc_<i>\<close>,
  \<open>initialize\<close> fails with \<open>AttributeError\<close>, nothing more having been changed; when the inlet
  edge is there and \<open>unit_to_outlet_arc_<i>\<close> is not, it fails with \<open>AttributeError\<close> after the
  candidate of branch \<open>i\<close> has been initialized.
\<close>

theorem initialize_missing_edge:
  "(\<forall>e. fst (initialize ui cfg kwargs m st) = Some e \<longrightarrow>
      e = AttributeError \<or> e = RuntimeError \<or> (\<exists>u vs. fst (ui u kwargs vs) = Some e)) \<and>
   (unit_disjunct cfg = us1 @ u # us2 \<and>
    initialize ui (cfg\<lparr>unit_disjunct := us1\<rparr>) kwargs m st = (None, st1) \<and>
    get_disjunct m (''unit_disjunct_'' @ str_nat (length us1 + 1)) = Inr d \<longrightarrow>
      (d (''inlet_to_unit_arc_'' @ str_nat (length us1 + 1)) = None \<longrightarrow>
         initialize ui cfg kwargs m st = (Some AttributeError, st1)) \<and>
      (\<forall>u' a vs.
         d (local_name u) = Some (UnitBlock u') \<and>
         d (''inlet_to_unit_arc_'' @ str_nat (length us1 + 1)) = Some (ArcC a) \<and>
         ui u' kwargs ((var_values st1)(destination a := var_values st1 (source a))) = (None, vs) \<and>
         d (''unit_to_outlet_arc_'' @ str_nat (length us1 + 1)) = None \<longrightarrow>
         initialize ui cfg kwargs m st =
           (Some AttributeError, \<lparr>var_values = vs, init_calls = init_calls st1 @ [(u', kwargs)]\<rparr>)))"
proof (intro conjI allI impI; (elim conjE)?)
  fix e assume "fst (initialize ui cfg kwargs m st) = Some e"
  then show "e = AttributeError \<or> e = RuntimeError \<or> (\<exists>u vs. fst (ui u kwargs vs) = Some e)"
    by (auto simp: initialize_def split: option.splits dest: initialize_units_errors)
next
  assume u: "unit_disjunct cfg = us1 @ u # us2"
    and pre: "initialize ui (cfg\<lparr>unit_disjunct := us1\<rparr>) kwargs m st = (None, st1)"
    and d: "get_disjunct m (''unit_disjunct_'' @ str_nat (length us1 + 1)) = Inr d"
  from d obtain sb where sb: "selector_block m = Some sb" by (auto simp: get_disjunct_Inr)
  from pre sb have p: "initialize_units ui kwargs m 0 us1 st = (None, st1)"
    by (simp add: initialize_def)
  have i: "initialize ui cfg kwargs m st = initialize_units ui kwargs m (length us1) (u # us2) st1"
    by (simp add: initialize_def sb u initialize_units_append p)
  {
    assume "d (''inlet_to_unit_arc_'' @ str_nat (length us1 + 1)) = None"
    from initialize_units_no_inlet [OF d this]
    show "initialize ui cfg kwargs m st = (Some AttributeError, st1)" unfolding i .
  next
    fix u' a vs
    assume "d (local_name u) = Some (UnitBlock u')"
      "d (''inlet_to_unit_arc_'' @ str_nat (length us1 + 1)) = Some (ArcC a)"
      "ui u' kwargs ((var_values st1)(destination a := var_values st1 (source a))) = (None, vs)"
      "d (''unit_to_outlet_arc_'' @ str_nat (length us1 + 1)) = None"
    from initialize_units_no_outlet [where ui=ui and kw=kwargs and st=st1, OF d this]
    show "initialize ui cfg kwargs m st =
           (Some AttributeError, \<lparr>var_values = vs, init_calls = init_calls st1 @ [(u', kwargs)]\<rparr>)"
      unfolding i .
  }
qed

theorem initialize_missing_edge_witness:
  "initialize example_init_ok example_config [] example_ready example_state =
     (Some AttributeError, example_state)"
proof -
  let ?u1 = "\<lparr>ident = 1, local_name = ''R1''\<rparr>" and ?u2 = "\<lparr>ident = 2, local_name = ''R2''\<rparr>"
  let ?d = "(Disjunct example_reserved)(''R1'' \<mapsto> UnitBlock ?u1)"
  have u: "unit_disjunct example_config = [] @ ?u1 # [?u2]"
    by (simp add: example_config_def example_units_def)
  have pre: "initialize example_init_ok (example_config\<lparr>unit_disjunct := []\<rparr>) [] example_ready
      example_state = (None, example_state)"
    by (simp add: initialize_def example_ready_def)
  have d: "get_disjunct example_ready (''unit_disjunct_'' @ str_nat (length ([] :: unit_model list) + 1)) = Inr ?d"
    by (simp add: example_eval)
  have n: "?d (''inlet_to_unit_arc_'' @ str_nat (length ([] :: unit_model list) + 1)) = None"
    by (simp add: example_eval)
  from initialize_missing_edge [of example_init_ok example_config "[]" example_ready example_state
      "[]" ?u1 "[?u2]" example_state ?d] u pre d n
  show ?thesis by blast
qed







section \<open>What initialization changes\<close>

lemma add_arc_new_edge:
  assumes "add_arc w idx b up m = Inr m'" "edges m' (c, n) = Some a"
  shows "edges m (c, n) = Some a \<or>
         (n = arc_prefix w @ str_nat b \<and>
          (\<exists>k p. a = make_arc w (SelectorPort k) (ConnectionPoint p)))"
proof -
  from edges_add_arc [OF assms(1)] obtain p where
    e: "edges m' = (edges m)((''unit_disjunct_'' @ str_nat b, arc_prefix w @ str_nat b) \<mapsto>
            make_arc w (SelectorPort (port_prefix w @ str_nat idx)) (ConnectionPoint p))"
    by blast
  from assms(2) show ?thesis
    unfolding e by (auto simp: fun_upd_def split: if_splits)
qed

lemma fan_out_new_edge:
  "fan_out w idx c ps m = Inr m' \<Longrightarrow> edges m' (b, n) = Some a \<Longrightarrow>
   edges m (b, n) = Some a \<or>
   ((\<exists>s. n = arc_prefix w @ s) \<and> (\<exists>k p. a = make_arc w (SelectorPort k) (ConnectionPoint p)))"
proof (induction ps arbitrary: c m)
  case Nil
  then show ?case by simp
next
  case (Cons p ps)
  from Cons.prems(1) obtain m1 where
    a: "add_arc w idx c (Some p) m = Inr m1" and f: "fan_out w idx (c + 1) ps m1 = Inr m'"
    by (auto split: sum.splits)
  from Cons.IH [OF f Cons.prems(2)] add_arc_new_edge [OF a, of b n a]
  show ?case by blast
qed

lemma wire_items_new_edge:
  "wire_items w items m = Inr m' \<Longrightarrow> edges m' (b, n) = Some a \<Longrightarrow>
   edges m (b, n) = Some a \<or>
   ((\<exists>s. n = arc_prefix w @ s) \<and> (\<exists>k p. a = make_arc w (SelectorPort k) (ConnectionPoint p)))"
proof (induction items arbitrary: m)
  case Nil
  then show ?case by simp
next
  case (Cons item items)
  obtain idx ps where item: "item = (idx, ps)" by (cases item)
  from Cons.prems(1) item obtain m1 where
    s: "wire_index w (idx, ps) m = Inr m1" and r: "wire_items w items m1 = Inr m'"
    by (auto split: sum.splits)
  have step: "edges m (b, n) = Some a \<or>
     ((\<exists>s. n = arc_prefix w @ s) \<and> (\<exists>k p. a = make_arc w (SelectorPort k) (ConnectionPoint p)))"
    if "edges m1 (b, n) = Some a"
  proof (cases "1 < length ps")
    case True
    with s have "fan_out w idx 1 ps m = Inr m1" by (simp add: wire_index_def)
    from fan_out_new_edge [OF this that] show ?thesis .
  next
    case False
    with s have "add_arc w idx idx (first_elem ps) m = Inr m1" by (simp add: wire_index_def)
    from add_arc_new_edge [OF this that] show ?thesis by blast
  qed
  from Cons.IH [OF r Cons.prems(2)] step show ?case by blast
qed

lemma edges_expand:
  "edges (expand_arcs m) x = map_option (\<lambda>a. a\<lparr>expanded := True\<rparr>) (edges m x)"
  by (cases x; cases "selector_block m")
    (auto simp: edges_def expand_arcs_def get_disjunct_def getattr_def expand_sb_component_def
      expand_component_def split: option.splits sb_component.splits component.splits)

lemma build_edge_shape:
  assumes "build cfg m0 = Inr m" "edges m (b, n) = Some a"
  shows "((\<exists>s. n = ''inlet_to_unit_arc_'' @ s) \<longrightarrow>
            (\<exists>k p. source a = SelectorPort k \<and> destination a = ConnectionPoint p)) \<and>
         ((\<exists>s. n = ''unit_to_outlet_arc_'' @ s) \<longrightarrow>
            (\<exists>k p. source a = ConnectionPoint p \<and> destination a = SelectorPort k))"
proof -
  from assms(1) obtain m1 m2 m3 m4 m5 where
    s: "create_unit_disjunct cfg (new_selector_block m0) = Inr m1"
       "add_units_to_disjunct cfg m1 = Inr m2"
       "build_ports cfg m2 = Inr m3"
       "arc_selector_inlet_to_unit cfg m3 = Inr m4"
       "arc_unit_outlet_to_selector cfg m4 = Inr m5"
       "m = expand_arcs m5"
    by (auto simp: build_def super_build_def split: sum.splits)
  have "no_edges m1"
    using s(1) by (intro no_edges_create [of "new_selector_block m0" cfg])
      (simp_all add: new_selector_block_def)
  with s(2) have "no_edges m2"
    by (auto simp: add_units_to_disjunct_def split: option.splits dest: no_edges_add_units)
  with sb_build_ports [OF s(3)] have "no_edges m3" by (rule no_edges_cong)
  then have e3: "edges m3 x = None" for x by (cases x) (simp add: no_edges_def)
  from s(4) have i: "wire_items inlet_wiring (unit_disjunct_inlet cfg) m3 = Inr m4"
    by (simp add: arc_selector_inlet_to_unit_def)
  from s(5) have o: "wire_items outlet_wiring (unit_disjunct_outlet cfg) m4 = Inr m5"
    by (simp add: arc_unit_outlet_to_selector_def)
  from assms(2) obtain a5 where a5: "edges m5 (b, n) = Some a5" "a = a5\<lparr>expanded := True\<rparr>"
    unfolding s(6) edges_expand by auto
  from wire_items_new_edge [OF o a5(1)] consider
    (old) "edges m4 (b, n) = Some a5"
  | (out) s k p where "n = ''unit_to_outlet_arc_'' @ s"
      "a5 = \<lparr>source = ConnectionPoint p, destination = SelectorPort k, expanded = False\<rparr>"
    by (auto simp: outlet_wiring_def)
  then show ?thesis
  proof cases
    case old
    from wire_items_new_edge [OF i old] e3 obtain s k p where
      "n = ''inlet_to_unit_arc_'' @ s"
      "a5 = \<lparr>source = SelectorPort k, destination = ConnectionPoint p, expanded = False\<rparr>"
      by (auto simp: inlet_wiring_def)
    with a5(2) show ?thesis by simp
  next
    case out
    with a5(2) show ?thesis by simp
  qed
qed

lemma propagate_state_frame:
  assumes "propagate_state c st = (r, st1)" "\<And>a. c = ArcC a \<Longrightarrow> destination a \<noteq> q"
  shows "var_values st1 q = var_values st q"
  using assms by (cases c) (auto simp: propagate_state_def)

lemma initialize_block_frame:
  assumes "initialize_block ui c kw st = (r, st2)" "\<And>u vs. snd (ui u kw vs) q = vs q"
  shows "var_values st2 q = var_values st q"
proof (cases c)
  case (UnitBlock u)
  obtain r' vs where c': "ui u kw (var_values st) = (r', vs)" by (cases "ui u kw (var_values st)")
  with assms(2) [of u "var_values st"] have "vs q = var_values st q" by simp
  with assms(1) UnitBlock c' show ?thesis by (auto simp: initialize_block_def)
qed (use assms(1) in \<open>auto simp: initialize_block_def\<close>)

lemma initialize_units_frame:
  assumes cand: "\<And>u vs. snd (ui u kw vs) q = vs q"
    and nd: "\<And>b s a. edges m (b, ''inlet_to_unit_arc_'' @ s) = Some a \<Longrightarrow> destination a \<noteq> q"
  shows "var_values (snd (initialize_units ui kw m i us st)) q = var_values st q"
proof (induction us arbitrary: i st)
  case Nil
  then show ?case by simp
next
  case (Cons u us)
  let ?D = "''unit_disjunct_'' @ str_nat (i + 1)"
  let ?I = "''inlet_to_unit_arc_'' @ str_nat (i + 1)"
  show ?case
  proof (cases "get_disjunct m ?D")
    case (Inl x)
    then show ?thesis by (simp add: initialize_units.simps(2))
  next
    case (Inr d)
    show ?thesis
    proof (cases "d (local_name u)")
      case None
      with Inr show ?thesis by (simp add: initialize_units.simps(2) getattr_def)
    next
      case (Some unit_block)
      show ?thesis
      proof (cases "d ?I")
        case None
        with Inr Some show ?thesis by (simp add: initialize_units.simps(2) getattr_def)
      next
        case ia: (Some inlet_arc)
        obtain r1 st1 where p: "propagate_state inlet_arc st = (r1, st1)"
          by (cases "propagate_state inlet_arc st")
        have "destination a \<noteq> q" if "inlet_arc = ArcC a" for a
        proof -
          from Inr ia that have "edges m (?D, ?I) = Some a" unfolding edges_Some by blast
          then show ?thesis by (rule nd)
        qed
        with p have v1: "var_values st1 q = var_values st q" by (rule propagate_state_frame)
        show ?thesis
        proof (cases r1)
          case (Some e1)
          with Inr \<open>d (local_name u) = Some unit_block\<close> ia p v1 show ?thesis
            by (simp add: initialize_units.simps(2) getattr_def)
        next
          case None
          obtain r2 st2 where b: "initialize_block ui unit_block kw st1 = (r2, st2)"
            by (cases "initialize_block ui unit_block kw st1")
          from b cand have v2: "var_values st2 q = var_values st1 q" by (rule initialize_block_frame)
          show ?thesis
          proof (cases r2)
            case (Some e2)
            with Inr \<open>d (local_name u) = Some unit_block\<close> ia p \<open>r1 = None\<close> b v1 v2
            show ?thesis by (simp add: initialize_units.simps(2) getattr_def)
          next
            case r2: None
            show ?thesis
            proof (cases "d (''unit_to_outlet_arc_'' @ str_nat (i + 1))")
              case None
              with Inr \<open>d (local_name u) = Some unit_block\<close> ia p \<open>r1 = None\<close> b r2 v1 v2
              show ?thesis by (simp add: initialize_units.simps(2) getattr_def)
            next
              case (Some outlet_arc)
              with Inr \<open>d (local_name u) = Some unit_block\<close> ia p \<open>r1 = None\<close> b r2
              have "initialize_units ui kw m i (u # us) st = initialize_units ui kw m (i + 1) us st2"
                by (simp add: initialize_units.simps(2) getattr_def)
              with Cons.IH [of "i + 1" st2] v1 v2 show ?thesis by simp
            qed
          qed
        qed
      qed
    qed
  qed
qed

lemma initialize_frame:
  assumes "\<And>u vs. snd (ui u kw vs) q = vs q"
    and "\<And>b s a. edges m (b, ''inlet_to_unit_arc_'' @ s) = Some a \<Longrightarrow> destination a \<noteq> q"
  shows "var_values (snd (initialize ui cfg kw m st)) q = var_values st q"
  using initialize_units_frame [where ui=ui and kw=kw and q=q and m=m, OF assms]
  by (simp add: initialize_def split: option.splits)

text \<open>
  C5. On a structure that \<open>build\<close> returned, with candidates whose own \<open>initialize\<close> leaves the
  selector's ports alone, \<open>initialize\<close> leaves the values at every selector port as they were;
  in particular the destination of every outlet edge keeps its values, so nothing is propagated
  along an outlet edge. On any structure, a port that no candidate changes and that is not the
  destination of an inlet edge keeps its values, whether \<open>initialize\<close> returns or raises:
  the selector itself writes only to the destinations of the inlet edges.
\<close>

theorem initialize_frame_selector_ports:
  "(build cfg m0 = Inr m \<and> (\<forall>u vs k. snd (ui u kwargs vs) (SelectorPort k) = vs (SelectorPort k)) \<longrightarrow>
      (\<forall>k. var_values (snd (initialize ui cfg kwargs m st)) (SelectorPort k) =
           var_values st (SelectorPort k)) \<and>
      (\<forall>b s a. edges m (b, ''unit_to_outlet_arc_'' @ s) = Some a \<longrightarrow>
           var_values (snd (initialize ui cfg kwargs m st)) (destination a) =
           var_values st (destination a))) \<and>
   (\<forall>q. (\<forall>u vs. snd (ui u kwargs vs) q = vs q) \<and>
        (\<forall>b s a. edges m (b, ''inlet_to_unit_arc_'' @ s) = Some a \<longrightarrow> destination a \<noteq> q) \<longrightarrow>
        var_values (snd (initialize ui cfg kwargs m st)) q = var_values st q)"
proof (intro conjI allI impI; (elim conjE)?)
  fix q
  assume "\<forall>u vs. snd (ui u kwargs vs) q = vs q"
    "\<forall>b s a. edges m (b, ''inlet_to_unit_arc_'' @ s) = Some a \<longrightarrow> destination a \<noteq> q"
  then show "var_values (snd (initialize ui cfg kwargs m st)) q = var_values st q"
    by (intro initialize_frame) blast+
next
  assume built: "build cfg m0 = Inr m"
    and cand: "\<forall>u vs k. snd (ui u kwargs vs) (SelectorPort k) = vs (SelectorPort k)"
  have sel: "var_values (snd (initialize ui cfg kwargs m st)) (SelectorPort k) =
           var_values st (SelectorPort k)" for k
  proof (rule initialize_frame)
    show "snd (ui u kwargs vs) (SelectorPort k) = vs (SelectorPort k)" for u vs
      using cand by blast
    show "destination a \<noteq> SelectorPort k"
      if "edges m (b, ''inlet_to_unit_arc_'' @ s) = Some a" for b s a
      using build_edge_shape [OF built that] by auto
  qed
  show "var_values (snd (initialize ui cfg kwargs m st)) (SelectorPort k) =
           var_values st (SelectorPort k)" for k
    by (rule sel)
  show "var_values (snd (initialize ui cfg kwargs m st)) (destination a) =
           var_values st (destination a)"
    if "edges m (b, ''unit_to_outlet_arc_'' @ s) = Some a" for b s a
  proof -
    from build_edge_shape [OF built that] obtain k where "destination a = SelectorPort k"
      by auto
    with sel [of k] show ?thesis by simp
  qed
qed

lemma example_initialize_values:
  "\<exists>m. build example_config example_model = Inr m \<and>
     var_values (snd (initialize example_init_ok example_config [''optarg''] m example_state))
       (ConnectionPoint ''R1.inlet'') = 7 \<and>
     var_values (snd (initialize example_init_ok example_config [''optarg''] m example_state))
       (ConnectionPoint ''R2.outlet'') = 1"
proof -
  have "case build example_config example_model of
          Inl _ \<Rightarrow> False
        | Inr m \<Rightarrow>
            var_values (snd (initialize example_init_ok example_config [''optarg''] m example_state))
              (ConnectionPoint ''R1.inlet'') = 7 \<and>
            var_values (snd (initialize example_init_ok example_config [''optarg''] m example_state))
              (ConnectionPoint ''R2.outlet'') = 1"
    by (simp add: build_def super_build_def new_selector_block_def create_unit_disjunct_def
        example_eval add_units_to_disjunct_def
        build_ports_def create_inlet_list_def create_outlet_list_def add_port_state_block_def
        add_port_objects_def add_port_def del_from_parent_def orphan_def upt_rec expand_arcs_def
        expand_sb_component_def expand_component_def initialize_def initialize_units.simps(2)
        propagate_state_def initialize_block_def example_init_ok_def example_state_def)
  then show ?thesis by (auto split: sum.splits)
qed

theorem initialize_frame_selector_ports_witness:
  "\<exists>m. build example_config example_model = Inr m \<and>
     var_values (snd (initialize example_init_ok example_config [''optarg''] m example_state))
       (SelectorPort ''inlet_1'') = 7 \<and>
     var_values (snd (initialize example_init_ok example_config [''optarg''] m example_state))
       (SelectorPort ''outlet_1'') = 0 \<and>
     var_values (snd (initialize example_init_ok example_config [''optarg''] m example_state))
       (ConnectionPoint ''R1.inlet'') = 7 \<and>
     var_values (snd (initialize example_init_ok example_config [''optarg''] m example_state))
       (ConnectionPoint ''R2.outlet'') = 1"
proof -
  from example_initialize_values obtain m where
    m: "build example_config example_model = Inr m"
    and v: "var_values (snd (initialize example_init_ok example_config [''optarg''] m example_state))
       (ConnectionPoint ''R1.inlet'') = 7"
      "var_values (snd (initialize example_init_ok example_config [''optarg''] m example_state))
       (ConnectionPoint ''R2.outlet'') = 1"
    by blast
  have c: "\<forall>u vs k. snd (example_init_ok u [''optarg''] vs) (SelectorPort k) = vs (SelectorPort k)"
    by (simp add: example_init_ok_def)
  from initialize_frame_selector_ports [of example_config example_model m example_init_ok
      "[''optarg'']" example_state] m c
  have "\<forall>k. var_values (snd (initialize example_init_ok example_config [''optarg''] m example_state))
       (SelectorPort k) = var_values example_state (SelectorPort k)"
    by blast
  then have "var_values (snd (initialize example_init_ok example_config [''optarg''] m example_state))
       (SelectorPort ''inlet_1'') = 7"
    "var_values (snd (initialize example_init_ok example_config [''optarg''] m example_state))
       (SelectorPort ''outlet_1'') = 0"
    by (simp_all add: example_state_def)
  with m v show ?thesis by blast
qed

end
